theory Spec2Isabelle
  imports Complex_Main "HOL-Library.Sublist"
begin

section \<open>Binary floating point\<close>

text \<open>
  The game computes with C++ \<^verbatim>\<open>float\<close> (IEEE 754 binary32) and, inside
  \<^verbatim>\<open>SafeZone::isInside\<close>, with \<^verbatim>\<open>double\<close> (binary64, because
  \<^verbatim>\<open>std::pow(float, int)\<close> returns a double). A finite floating-point number is
  modelled by the rational number it denotes, and every arithmetic operation is the exact
  operation followed by rounding to the nearest number with a \<open>p\<close>-bit significand, ties to
  the even significand (\<open>p = 24\<close> for float, \<open>p = 53\<close> for double). The exponent
  range is unbounded: overflow to infinity, subnormal numbers, signed zeros and NaN are not
  modelled. The game's quantities stay far inside the normal range of binary32.

  \<open>expo x\<close> is the binary exponent of a positive number: \<open>2 powi expo x \<le> x < 2 powi (expo x + 1)\<close>.
  \<open>rne\<close> rounds a rational to the nearest integer, ties to even. \<open>rnd p\<close> rounds to
  \<open>p\<close> significant bits. \<open>isqrt\<close> is the integer square root and \<open>rnd_sqrt p\<close>
  the correctly rounded square root.
\<close>

function expo :: "rat \<Rightarrow> int" where
  "expo x = (if x \<le> 0 then 0 else if 2 \<le> x then expo (x / 2) + 1
             else if x < 1 then expo (x * 2) - 1 else 0)"
  by pat_completeness auto
termination
proof (relation "measure (\<lambda>x. nat (2 * \<lceil>1 / x\<rceil> + \<lfloor>x\<rfloor>))", goal_cases)
  case 1 show ?case by simp
next
  case (2 x)
  then have x: "2 \<le> x" by simp
  have a: "\<lceil>1 / (x / 2)\<rceil> = 1" using x by (intro ceiling_unique) (auto simp: field_simps)
  have b: "\<lceil>1 / x\<rceil> = 1" using x by (intro ceiling_unique) (auto simp: field_simps)
  have c: "\<lfloor>x / 2\<rfloor> < \<lfloor>x\<rfloor>" using x by (simp add: floor_less_iff le_floor_iff) linarith
  have d: "0 \<le> \<lfloor>x / 2\<rfloor>" "0 \<le> \<lfloor>x\<rfloor>" using x by simp_all
  show ?case by (simp only: in_measure a b) (use c d in linarith)
next
  case (3 x)
  then have x: "0 < x" "x < 1" by simp_all
  define t where "t = 1 / x"
  have a: "\<lfloor>x\<rfloor> = 0" using x by (intro floor_unique) auto
  have b: "\<lfloor>x * 2\<rfloor> \<le> 1" using x by (simp add: floor_le_iff)
  have b0: "0 \<le> \<lfloor>x * 2\<rfloor>" using x by simp
  have c: "1 / (x * 2) = t / 2" by (simp add: t_def)
  have d: "1 < t" using x by (simp add: t_def field_simps)
  have n2: "2 \<le> \<lceil>t\<rceil>" using d by (simp add: le_ceiling_iff)
  have "t \<le> of_int \<lceil>t\<rceil>" by (rule le_of_int_ceiling)
  moreover have "(of_int \<lceil>t\<rceil> :: rat) / 2 \<le> of_int (\<lceil>t\<rceil> - 1)"
    using n2 by simp
  ultimately have "t / 2 \<le> of_int (\<lceil>t\<rceil> - 1)" by linarith
  then have e: "\<lceil>t / 2\<rceil> \<le> \<lceil>t\<rceil> - 1" by (simp only: ceiling_le_iff)
  have f: "0 < \<lceil>t / 2\<rceil>" using d by simp
  have T: "1 / x = t" by (simp add: t_def)
  have "nat (2 * \<lceil>1 / (x * 2)\<rceil> + \<lfloor>x * 2\<rfloor>) < nat (2 * \<lceil>1 / x\<rceil> + \<lfloor>x\<rfloor>)"
    unfolding c T a using b b0 e f by linarith
  then show ?case by (simp only: in_measure)
qed

declare expo.simps [simp del]

definition rne :: "rat \<Rightarrow> int" where
  "rne q = (let f = \<lfloor>q\<rfloor>; r = q - of_int f in
     if r < 1/2 then f else if 1/2 < r then f + 1 else if even f then f else f + 1)"

text \<open>\<open>rne_div a b\<close> is \<open>rne\<close> of the quotient \<open>a / b\<close> of two integers, \<open>b > 0\<close>.\<close>

definition rne_div :: "int \<Rightarrow> int \<Rightarrow> int" where
  "rne_div a b = (let q = a div b; r = a mod b in
     if 2 * r < b then q else if b < 2 * r then q + 1 else if even q then q else q + 1)"

definition rnd :: "nat \<Rightarrow> rat \<Rightarrow> rat" where
  "rnd p x = (if x = 0 then 0 else
     let u = 2 powi (expo \<bar>x\<bar> - (int p - 1)) in of_int (rne (x / u)) * u)"

function isqrt :: "int \<Rightarrow> int" where
  "isqrt n = (if n \<le> 0 then 0
              else let r = 2 * isqrt (n div 4) in if (r + 1) * (r + 1) \<le> n then r + 1 else r)"
  by pat_completeness auto
termination
  by (relation "measure nat") auto

declare isqrt.simps [simp del]

text \<open>
  \<^verbatim>\<open>std::sqrt\<close> of a negative number is NaN; the game only takes the root of a sum of two
  squares, so the branch \<open>x \<le> 0\<close> is only reached with \<open>x = 0\<close>.
\<close>

definition rnd_sqrt :: "nat \<Rightarrow> rat \<Rightarrow> rat" where
  "rnd_sqrt p x = (if x \<le> 0 then 0 else
     let u = 2 powi (expo x div 2 - (int p - 1));
         q = x / (u * u);
         m = isqrt \<lfloor>q\<rfloor>;
         h = (of_int m + 1/2) * (of_int m + 1/2)
     in (if q < h \<or> (q = h \<and> even m) then of_int m else of_int (m + 1)) * u)"

type_synonym float = rat
type_synonym double = rat

text \<open>
  \<open>f32\<close> is a float literal, \<open>i2f\<close> the conversion of an integer, \<open>d2f\<close> the
  conversion of a double to float; a float is converted to double without change.
\<close>

definition f32 :: "rat \<Rightarrow> float" where "f32 q = rnd 24 q"
definition i2f :: "int \<Rightarrow> float" where "i2f k = rnd 24 (of_int k)"
definition fadd :: "float \<Rightarrow> float \<Rightarrow> float" where "fadd a b = rnd 24 (a + b)"
definition fsub :: "float \<Rightarrow> float \<Rightarrow> float" where "fsub a b = rnd 24 (a - b)"
definition fmul :: "float \<Rightarrow> float \<Rightarrow> float" where "fmul a b = rnd 24 (a * b)"
definition fdiv :: "float \<Rightarrow> float \<Rightarrow> float" where "fdiv a b = rnd 24 (a / b)"
definition fsqrt :: "float \<Rightarrow> float" where "fsqrt a = rnd_sqrt 24 a"
definition dadd :: "double \<Rightarrow> double \<Rightarrow> double" where "dadd a b = rnd 53 (a + b)"
definition dmul :: "double \<Rightarrow> double \<Rightarrow> double" where "dmul a b = rnd 53 (a * b)"
definition dsqrt :: "double \<Rightarrow> double" where "dsqrt a = rnd_sqrt 53 a"
definition d2f :: "double \<Rightarrow> float" where "d2f a = rnd 24 a"

text \<open>A rational is a float when rounding to 24 bits leaves it unchanged.\<close>

definition is_float :: "rat \<Rightarrow> bool" where
  "is_float x = (rnd 24 x = x)"

section \<open>Constants\<close>

definition WINDOW_WIDTH :: int where "WINDOW_WIDTH = 1200"
definition WINDOW_HEIGHT :: int where "WINDOW_HEIGHT = 700"
definition PLAYER_SPEED :: float where "PLAYER_SPEED = f32 3"
definition ENEMY_SPEED :: float where "ENEMY_SPEED = f32 1"
definition BULLET_SPEED :: float where "BULLET_SPEED = f32 7"
definition SAFE_ZONE_SHRINK_RATE :: float where "SAFE_ZONE_SHRINK_RATE = f32 (1 / 10)"
definition BULLET_COOLDOWN :: float where "BULLET_COOLDOWN = f32 (3 / 10)"

section \<open>Entities, bullets and the safe zone\<close>

text \<open>
  \<^verbatim>\<open>sf::Vector2f\<close> with its componentwise operators. A sprite or shape is reduced to its
  position; textures, colours, origins and scale factors only matter to drawing.
\<close>

record Vector2f =
  vx :: float
  vy :: float

definition vec_add :: "Vector2f \<Rightarrow> Vector2f \<Rightarrow> Vector2f" where
  "vec_add a b = \<lparr>vx = fadd (vx a) (vx b), vy = fadd (vy a) (vy b)\<rparr>"

definition vec_sub :: "Vector2f \<Rightarrow> Vector2f \<Rightarrow> Vector2f" where
  "vec_sub a b = \<lparr>vx = fsub (vx a) (vx b), vy = fsub (vy a) (vy b)\<rparr>"

definition vec_div :: "Vector2f \<Rightarrow> float \<Rightarrow> Vector2f" where
  "vec_div a k = \<lparr>vx = fdiv (vx a) k, vy = fdiv (vy a) k\<rparr>"

definition vec_mul :: "Vector2f \<Rightarrow> float \<Rightarrow> Vector2f" where
  "vec_mul a k = \<lparr>vx = fmul (vx a) k, vy = fmul (vy a) k\<rparr>"

text \<open>Class \<^verbatim>\<open>Entity\<close>; \<open>position\<close> is the sprite's position.\<close>

record Entity =
  position :: Vector2f
  velocity :: Vector2f
  speed :: float
  health :: int

definition Entity_ctor :: "float \<Rightarrow> float \<Rightarrow> float \<Rightarrow> int \<Rightarrow> Entity" where
  "Entity_ctor x y s h = \<lparr>position = \<lparr>vx = x, vy = y\<rparr>, velocity = \<lparr>vx = 0, vy = 0\<rparr>,
                           speed = s, health = h\<rparr>"

definition Entity_move :: "Entity \<Rightarrow> Entity" where
  "Entity_move e = e\<lparr>position := vec_add (position e) (velocity e)\<rparr>"

definition Entity_isAlive :: "Entity \<Rightarrow> bool" where
  "Entity_isAlive e = (health e > 0)"

definition Entity_takeDamage :: "int \<Rightarrow> Entity \<Rightarrow> Entity" where
  "Entity_takeDamage amount e = e\<lparr>health := health e - amount\<rparr>"

definition Player_ctor :: Entity where
  "Player_ctor = Entity_ctor (i2f (WINDOW_WIDTH div 2)) (i2f (WINDOW_HEIGHT div 2)) PLAYER_SPEED 100"

text \<open>\<^verbatim>\<open>Player::handleInput\<close>; the four arguments are the states of the keys W, S, A, D.\<close>

definition Player_handleInput :: "bool \<Rightarrow> bool \<Rightarrow> bool \<Rightarrow> bool \<Rightarrow> Entity \<Rightarrow> Entity" where
  "Player_handleInput W S A D e =
    (let v0 = \<lparr>vx = 0, vy = 0\<rparr>;
         v1 = (if W then v0\<lparr>vy := fsub (vy v0) (speed e)\<rparr> else v0);
         v2 = (if S then v1\<lparr>vy := fadd (vy v1) (speed e)\<rparr> else v1);
         v3 = (if A then v2\<lparr>vx := fsub (vx v2) (speed e)\<rparr> else v2);
         v4 = (if D then v3\<lparr>vx := fadd (vx v3) (speed e)\<rparr> else v3)
     in e\<lparr>velocity := v4\<rparr>)"

text \<open>The enemy's constructor; \<open>r\<close> is the number \<^verbatim>\<open>rand()\<close> returns.\<close>

definition Enemy_ctor :: "float \<Rightarrow> float \<Rightarrow> nat \<Rightarrow> Entity" where
  "Enemy_ctor x y r = Entity_ctor x y (fadd ENEMY_SPEED (fdiv (i2f (int (r mod 20))) (f32 10))) 50"

definition vec_length :: "Vector2f \<Rightarrow> float" where
  "vec_length d = fsqrt (fadd (fmul (vx d) (vx d)) (fmul (vy d) (vy d)))"

definition Enemy_update :: "Vector2f \<Rightarrow> Entity \<Rightarrow> Entity" where
  "Enemy_update playerPos e =
    (let direction = vec_sub playerPos (position e);
         length = vec_length direction
     in if length > 0 then e\<lparr>velocity := vec_mul (vec_div direction length) (speed e)\<rparr> else e)"

text \<open>Class \<^verbatim>\<open>Bullet\<close>; \<open>shape_position\<close> and \<open>shape_radius\<close> are those of its circle.\<close>

record Bullet =
  shape_position :: Vector2f
  shape_radius :: float
  bullet_velocity :: Vector2f
  bullet_speed :: float

definition Bullet_ctor :: "float \<Rightarrow> float \<Rightarrow> float \<Rightarrow> float \<Rightarrow> Bullet" where
  "Bullet_ctor x y dirX dirY =
    (let b = \<lparr>shape_position = \<lparr>vx = x, vy = y\<rparr>, shape_radius = f32 5,
              bullet_velocity = \<lparr>vx = 0, vy = 0\<rparr>, bullet_speed = BULLET_SPEED\<rparr>;
         length = fsqrt (fadd (fmul dirX dirX) (fmul dirY dirY))
     in if length > 0
        then b\<lparr>bullet_velocity := \<lparr>vx = fmul (fdiv dirX length) (bullet_speed b),
                                     vy = fmul (fdiv dirY length) (bullet_speed b)\<rparr>\<rparr>
        else b)"

definition Bullet_move :: "Bullet \<Rightarrow> Bullet" where
  "Bullet_move b = b\<lparr>shape_position := vec_add (shape_position b) (bullet_velocity b)\<rparr>"

record SafeZone =
  shrinkRate :: float
  minRadius :: float
  radius :: float

definition SafeZone_ctor :: SafeZone where
  "SafeZone_ctor = \<lparr>shrinkRate = SAFE_ZONE_SHRINK_RATE, minRadius = f32 50,
                     radius = fmul (i2f (min WINDOW_WIDTH WINDOW_HEIGHT)) (f32 (1 / 2))\<rparr>"

definition SafeZone_update :: "SafeZone \<Rightarrow> SafeZone" where
  "SafeZone_update z =
    (if radius z > minRadius z then z\<lparr>radius := fsub (radius z) (shrinkRate z)\<rparr> else z)"

definition SafeZone_isInside :: "SafeZone \<Rightarrow> Vector2f \<Rightarrow> bool" where
  "SafeZone_isInside z pos =
    (let center = \<lparr>vx = i2f (WINDOW_WIDTH div 2), vy = i2f (WINDOW_HEIGHT div 2)\<rparr>;
         dx = fsub (vx pos) (vx center);
         dy = fsub (vy pos) (vy center);
         distance = d2f (dsqrt (dadd (dmul dx dx) (dmul dy dy)))
     in distance < radius z)"

section \<open>The game loop\<close>

text \<open>
  What \<^verbatim>\<open>main\<close> reads from its environment is an input of the model. One polled event
  comes with the readings its handler takes: the time (in microseconds, as \<^verbatim>\<open>sf::Time\<close>
  counts it) at which \<^verbatim>\<open>bulletClock\<close> is read and restarted, and the mouse position.
  One frame comes with its polled events, the time at which \<^verbatim>\<open>clock\<close> is restarted, the
  states of the four movement keys, and the three numbers \<^verbatim>\<open>rand()\<close> returns if an enemy
  is spawned. An \<^verbatim>\<open>sf::Clock\<close> is the time of its last restart.
\<close>

datatype MouseButton = Mouse_Left | Mouse_Right | Mouse_Middle

datatype EventType = Closed | MouseButtonPressed MouseButton | OtherEvent

record Event =
  event_type :: EventType
  bulletClock_now :: int
  mouse_x :: int
  mouse_y :: int

record Frame =
  events :: "Event list"
  clock_now :: int
  key_W :: bool
  key_S :: bool
  key_A :: bool
  key_D :: bool
  rand_x :: nat
  rand_y :: nat
  rand_speed :: nat

text \<open>
  What the program does to the outside, in order: the shot sound, the score file written
  (file name and content; opening a \<^verbatim>\<open>std::ofstream\<close> truncates the file), the end
  screen with its text, and the pause in seconds. Drawing a frame changes no state and is
  left out.
\<close>

datatype Output = PlayShootSound | WriteFile string string | GameOverScreen string | Sleep nat

record Game =
  player :: Entity
  enemies :: "Entity list"
  bullets :: "Bullet list"
  safeZone :: SafeZone
  clock :: int
  bulletClock :: int
  timeSinceLastSpawn :: float
  score :: int
  killCount :: int
  window_isOpen :: bool
  effects :: "Output list"

text \<open>\<^verbatim>\<open>sf::Time::asSeconds\<close> of SFML 2: the microseconds, as a float, divided by \<^verbatim>\<open>1000000.f\<close>.\<close>

definition asSeconds :: "int \<Rightarrow> float" where
  "asSeconds microseconds = fdiv (i2f microseconds) (f32 1000000)"

text \<open>\<^verbatim>\<open>std::to_string\<close> and \<^verbatim>\<open>operator<<\<close> of an \<^verbatim>\<open>int\<close>: decimal digits.\<close>

fun digits :: "nat \<Rightarrow> string" where
  "digits n = (if n < 10 then [''0123456789'' ! n]
               else digits (n div 10) @ [''0123456789'' ! (n mod 10)])"

declare digits.simps [simp del]

definition to_string :: "int \<Rightarrow> string" where
  "to_string i = (if i < 0 then CHR ''-'' # digits (nat (- i)) else digits (nat i))"

text \<open>
  \<^verbatim>\<open>enemies.emplace_back(rand() % WINDOW_WIDTH, rand() % WINDOW_HEIGHT, enemyTexture)\<close>:
  the new enemy, from the three random numbers.
\<close>

definition spawn :: "nat \<Rightarrow> nat \<Rightarrow> nat \<Rightarrow> Entity" where
  "spawn rx ry rs =
     Enemy_ctor (i2f (int rx mod WINDOW_WIDTH)) (i2f (int ry mod WINDOW_HEIGHT)) rs"

text \<open>The body of the shooting branch of the event loop.\<close>

definition fire :: "Event \<Rightarrow> Game \<Rightarrow> Game" where
  "fire ev g =
    (let playerPos = position (player g) in
     g\<lparr>bullets := bullets g @ [Bullet_ctor (vx playerPos) (vy playerPos)
                                   (fsub (i2f (mouse_x ev)) (vx playerPos))
                                   (fsub (i2f (mouse_y ev)) (vy playerPos))],
       effects := effects g @ [PlayShootSound],
       bulletClock := bulletClock_now ev\<rparr>)"

definition handle_event :: "Event \<Rightarrow> Game \<Rightarrow> Game" where
  "handle_event ev g =
    (let g1 = (if event_type ev = Closed then g\<lparr>window_isOpen := False\<rparr> else g)
     in if event_type ev = MouseButtonPressed Mouse_Left
           \<and> asSeconds (bulletClock_now ev - bulletClock g1) > BULLET_COOLDOWN
        then fire ev g1 else g1)"

text \<open>\<^verbatim>\<open>while (window.pollEvent(event))\<close>: a closed window returns no further event.\<close>

fun poll_events :: "Event list \<Rightarrow> Game \<Rightarrow> Game" where
  "poll_events [] g = g"
| "poll_events (ev # evs) g = (if window_isOpen g then poll_events evs (handle_event ev g) else g)"

definition advance_clock :: "Frame \<Rightarrow> Game \<Rightarrow> Game" where
  "advance_clock f g =
    (let deltaTime = asSeconds (clock_now f - clock g)
     in g\<lparr>clock := clock_now f, timeSinceLastSpawn := fadd (timeSinceLastSpawn g) deltaTime\<rparr>)"

definition move_player :: "Frame \<Rightarrow> Game \<Rightarrow> Game" where
  "move_player f g =
     g\<lparr>player := Entity_move (Player_handleInput (key_W f) (key_S f) (key_A f) (key_D f) (player g))\<rparr>"

definition out_of_window :: "Vector2f \<Rightarrow> bool" where
  "out_of_window p = (vx p < 0 \<or> vx p > i2f WINDOW_WIDTH \<or> vy p < 0 \<or> vy p > i2f WINDOW_HEIGHT)"

text \<open>The bullet loop: each bullet moves and is erased when it has left the window.\<close>

fun update_bullets :: "Bullet list \<Rightarrow> Bullet list" where
  "update_bullets [] = []"
| "update_bullets (b # bs) =
    (let b' = Bullet_move b
     in if out_of_window (shape_position b') then update_bullets bs else b' # update_bullets bs)"

definition hits :: "Entity \<Rightarrow> Bullet \<Rightarrow> bool" where
  "hits e b =
    (let dx = fsub (vx (shape_position b)) (vx (position e));
         dy = fsub (vy (shape_position b)) (vy (position e));
         dist = fsqrt (fadd (fmul dx dx) (fmul dy dy))
     in dist < fadd (shape_radius b) (i2f 12))"

text \<open>
  The inner loop over the bullets, for one enemy. \<open>scan_bullets\<close> collects the bullets already
  passed; at a hit the bullet is erased (the rest of the vector stays) and the loop breaks.
\<close>

record Scan =
  scan_enemy :: Entity
  scan_bullets :: "Bullet list"
  scan_score :: int
  scan_killCount :: int
  scan_dead :: bool

fun bullet_scan :: "Bullet list \<Rightarrow> Scan \<Rightarrow> Scan" where
  "bullet_scan [] s = s"
| "bullet_scan (b # bs) s =
    (if hits (scan_enemy s) b
     then (let s1 = s\<lparr>scan_enemy := Entity_takeDamage 25 (scan_enemy s),
                       scan_bullets := scan_bullets s @ bs\<rparr>
           in if \<not> Entity_isAlive (scan_enemy s1)
              then s1\<lparr>scan_score := scan_score s1 + 10, scan_killCount := scan_killCount s1 + 1,
                      scan_dead := True\<rparr>
              else s1)
     else bullet_scan bs (s\<lparr>scan_bullets := scan_bullets s @ [b]\<rparr>))"

definition touches :: "Entity \<Rightarrow> Entity \<Rightarrow> bool" where
  "touches p e =
    (let dx = fsub (vx (position p)) (vx (position e));
         dy = fsub (vy (position p)) (vy (position e))
     in fsqrt (fadd (fmul dx dx) (fmul dy dy)) < i2f 20)"

text \<open>
  One pass of the enemy loop. The enemies that stay are collected in \<open>enemies\<close>, which
  \<open>update_enemies\<close> empties before the loop: a dead enemy is erased by not being collected.
\<close>

definition enemy_step :: "Entity \<Rightarrow> Game \<Rightarrow> Game" where
  "enemy_step e g =
    (let e1 = Entity_move (Enemy_update (position (player g)) e);
         s = bullet_scan (bullets g)
               \<lparr>scan_enemy = e1, scan_bullets = [], scan_score = score g,
                scan_killCount = killCount g, scan_dead = False\<rparr>;
         g1 = g\<lparr>bullets := scan_bullets s, score := scan_score s, killCount := scan_killCount s\<rparr>
     in if scan_dead s then g1
        else g1\<lparr>enemies := enemies g1 @ [scan_enemy s],
                player := (if touches (player g1) (scan_enemy s)
                           then Entity_takeDamage 1 (player g1) else player g1)\<rparr>)"

fun enemy_loop :: "Entity list \<Rightarrow> Game \<Rightarrow> Game" where
  "enemy_loop [] g = g"
| "enemy_loop (e # es) g = enemy_loop es (enemy_step e g)"

definition update_enemies :: "Game \<Rightarrow> Game" where
  "update_enemies g = enemy_loop (enemies g) (g\<lparr>enemies := []\<rparr>)"

definition update_zone :: "Game \<Rightarrow> Game" where
  "update_zone g =
    (let g1 = g\<lparr>safeZone := SafeZone_update (safeZone g)\<rparr>;
         out = (\<not> SafeZone_isInside (safeZone g1) (position (player g1)))
     in if out then g1\<lparr>player := Entity_takeDamage 1 (player g1)\<rparr> else g1)"

definition spawn_enemy :: "Frame \<Rightarrow> Game \<Rightarrow> Game" where
  "spawn_enemy f g =
    (if timeSinceLastSpawn g > f32 3 \<and> length (enemies g) < 10
     then g\<lparr>enemies := enemies g @ [spawn (rand_x f) (rand_y f) (rand_speed f)],
            timeSinceLastSpawn := f32 0\<rparr>
     else g)"

text \<open>What is written to the score file, and the text of the end screen.\<close>

definition score_text :: "Game \<Rightarrow> string" where
  "score_text g = ''Final Score: '' @ to_string (score g) @ [CHR 0x0A] @ ''Kills: ''
                    @ to_string (killCount g)"

definition game_over_text :: "Game \<Rightarrow> string" where
  "game_over_text g = ''The Last Helldiver Fell'' @ [CHR 0x0A] @ ''Final Score: ''
                        @ to_string (score g) @ '' | Kills: '' @ to_string (killCount g)"

text \<open>The end of the main loop's body: the score file, the end screen, the pause, the window closed.\<close>

definition game_over :: "Game \<Rightarrow> Game" where
  "game_over g =
    (if \<not> Entity_isAlive (player g)
     then g\<lparr>effects := effects g @
              [WriteFile ''game_score.txt'' (score_text g), GameOverScreen (game_over_text g), Sleep 3],
            window_isOpen := False\<rparr>
     else g)"

text \<open>
  The simulation part of one pass of the main loop: from the frame clock to the safe zone
  (\<open>before_spawn\<close>), then the spawn; and the whole pass: events, simulation, end of game.
\<close>

definition before_spawn :: "Frame \<Rightarrow> Game \<Rightarrow> Game" where
  "before_spawn f g =
    (let g1 = advance_clock f g;
         g2 = move_player f g1;
         g3 = g2\<lparr>bullets := update_bullets (bullets g2)\<rparr>;
         g4 = update_enemies g3
     in update_zone g4)"

definition simulate :: "Frame \<Rightarrow> Game \<Rightarrow> Game" where
  "simulate f g = spawn_enemy f (before_spawn f g)"

definition loop_body :: "Frame \<Rightarrow> Game \<Rightarrow> Game" where
  "loop_body f g = game_over (simulate f (poll_events (events f) g))"

text \<open>\<^verbatim>\<open>while (window.isOpen())\<close>, run on the frames of a finite prefix of a session.\<close>

fun main_loop :: "Frame list \<Rightarrow> Game \<Rightarrow> Game" where
  "main_loop [] g = g"
| "main_loop (f # fs) g = (if window_isOpen g then main_loop fs (loop_body f g) else g)"

text \<open>
  The state when the main loop is entered: \<open>t_clock\<close> and \<open>t_bulletClock\<close> are the times at
  which the two clocks are constructed, \<open>rands i\<close> the random numbers of the \<open>i\<close>-th of the
  five first enemies.
\<close>

definition initial :: "int \<Rightarrow> int \<Rightarrow> (nat \<Rightarrow> nat \<times> nat \<times> nat) \<Rightarrow> Game" where
  "initial t_clock t_bulletClock rands =
    \<lparr>player = Player_ctor,
     enemies = map (\<lambda>i. case rands i of (rx, ry, rs) \<Rightarrow> spawn rx ry rs) [0..<5],
     bullets = [],
     safeZone = SafeZone_ctor,
     clock = t_clock,
     bulletClock = t_bulletClock,
     timeSinceLastSpawn = f32 0,
     score = 0,
     killCount = 0,
     window_isOpen = True,
     effects = []\<rparr>"

text \<open>
  The effects a run can have produced: shot sounds, followed, exactly when the player is dead,
  by the score file, the end screen and the pause; and a dead player means a closed window.
\<close>

definition run_effects :: "Game \<Rightarrow> bool" where
  "run_effects g =
    ((\<exists>n. effects g = replicate n PlayShootSound
             @ (if Entity_isAlive (player g) then []
                else [WriteFile ''game_score.txt'' (score_text g),
                      GameOverScreen (game_over_text g), Sleep 3]))
     \<and> (Entity_isAlive (player g) \<or> \<not> window_isOpen g))"

section \<open>A session in which the player walks out of the window\<close>

text \<open>
  The inputs of an example session: 64 frames a second (15625 microseconds each), no events,
  the key W held in every frame. \<open>walk_state n\<close> is the state this session reaches after \<open>n\<close>
  frames, for \<open>n\<close> up to 120, when \<^verbatim>\<open>rand()\<close> has placed the five first enemies at
  (600, 699) with speed 1.
\<close>

definition walk_frame :: "nat \<Rightarrow> Frame" where
  "walk_frame n = \<lparr>events = [], clock_now = 15625 * (int n + 1), key_W = True, key_S = False,
                    key_A = False, key_D = False, rand_x = 0, rand_y = 0, rand_speed = 0\<rparr>"

definition walk_state :: "nat \<Rightarrow> Game" where
  "walk_state n =
    \<lparr>player = \<lparr>position = \<lparr>vx = 600, vy = 350 - 3 * of_nat n\<rparr>,
                velocity = \<lparr>vx = 0, vy = (if n = 0 then 0 else - 3)\<rparr>,
                speed = 3, health = 100 - int (n - 112)\<rparr>,
     enemies = replicate 5 \<lparr>position = \<lparr>vx = 600, vy = 699 - of_nat n\<rparr>,
                             velocity = \<lparr>vx = 0, vy = (if n = 0 then 0 else - 1)\<rparr>,
                             speed = 1, health = 50\<rparr>,
     bullets = [],
     safeZone = \<lparr>shrinkRate = 13421773 / 134217728, minRadius = 50,
                 radius = 350 - of_nat n * (3277 / 32768)\<rparr>,
     clock = 15625 * int n,
     bulletClock = 0,
     timeSinceLastSpawn = of_nat n / 64,
     score = 0,
     killCount = 0,
     window_isOpen = True,
     effects = []\<rparr>"

section \<open>Properties of rounding\<close>

lemma expo_bounds: "0 < x \<Longrightarrow> 2 powi (expo x) \<le> x \<and> x < 2 powi (expo x + 1)"
proof (induction x rule: expo.induct)
  case (1 x)
  show ?case
  proof (cases "2 \<le> x")
    case True
    then have e: "expo x = expo (x / 2) + 1" by (subst expo.simps) simp
    have "2 powi expo (x / 2) \<le> x / 2 \<and> x / 2 < 2 powi (expo (x / 2) + 1)"
      using 1(1) [OF _ True] True "1.prems" by simp
    then show ?thesis unfolding e by (simp add: power_int_add field_simps)
  next
    case False
    show ?thesis
    proof (cases "x < 1")
      case True
      then have e: "expo x = expo (x * 2) - 1" using "1.prems" False by (subst expo.simps) simp
      have "2 powi expo (x * 2) \<le> x * 2 \<and> x * 2 < 2 powi (expo (x * 2) + 1)"
        using 1(2) [OF _ False True] True "1.prems" by simp
      then show ?thesis unfolding e by (simp add: power_int_add power_int_diff field_simps)
    next
      case nlt: False
      then have e: "expo x = 0" using False "1.prems" by (subst expo.simps) simp
      show ?thesis unfolding e using False nlt by simp
    qed
  qed
qed

lemma powi2_mono: "a \<le> b \<Longrightarrow> (2::rat) powi a \<le> 2 powi b"
  by (rule power_int_increasing) simp_all

lemma powi2_less_imp: "(2::rat) powi a < 2 powi b \<Longrightarrow> a < b"
  by (rule ccontr) (use powi2_mono [of b a] in simp)

lemma expo_unique:
  assumes "0 < x" "2 powi e \<le> x" "x < 2 powi (e + 1)"
  shows "expo x = e"
proof -
  from expo_bounds [OF assms(1)] have b: "2 powi (expo x) \<le> x" "x < 2 powi (expo x + 1)" by simp_all
  have "2 powi e < (2::rat) powi (expo x + 1)" using assms(2) b(2) by simp
  then have 1: "e < expo x + 1" by (rule powi2_less_imp)
  have "2 powi (expo x) < (2::rat) powi (e + 1)" using assms(3) b(1) by simp
  then have 2: "expo x < e + 1" by (rule powi2_less_imp)
  from 1 2 show ?thesis by simp
qed

lemma rnd_binade:
  assumes "2 powi e \<le> \<bar>x\<bar>" "\<bar>x\<bar> < 2 powi (e + 1)"
  shows "rnd p x = of_int (rne (x / 2 powi (e - (int p - 1)))) * 2 powi (e - (int p - 1))"
proof -
  have "0 < (2::rat) powi e" by simp
  then have pos: "0 < \<bar>x\<bar>" using assms(1) by linarith
  then have "expo \<bar>x\<bar> = e" using assms by (intro expo_unique) 
  then show ?thesis using pos by (simp add: rnd_def Let_def)
qed

lemma rne_of_int [simp]: "rne (of_int k) = k"
  by (simp add: rne_def)

lemma rnd_0 [simp]: "rnd p 0 = 0"
  by (simp add: rnd_def)

lemma rnd_of_int:
  assumes "\<bar>k\<bar> < 2 ^ p"
  shows "rnd p (of_int k) = of_int k"
proof (cases "k = 0")
  case True then show ?thesis by simp
next
  case False
  define x :: rat where "x = of_int k"
  define e where "e = expo \<bar>x\<bar>"
  have pos: "0 < \<bar>x\<bar>" using False by (simp add: x_def)
  from expo_bounds [OF pos] have b: "2 powi e \<le> \<bar>x\<bar>" "\<bar>x\<bar> < 2 powi (e + 1)"
    by (simp_all add: e_def)
  have "\<bar>x\<bar> < 2 powi (int p)" using assms unfolding x_def
    by (metis of_int_abs of_int_less_numeral_power_cancel_iff power_int_of_nat)
  then have "(2::rat) powi e < 2 powi (int p)" using b(1) by linarith
  then have ep: "e < int p" by (rule powi2_less_imp)
  define n where "n = nat (int p - 1 - e)"
  have u: "(2::rat) powi (e - (int p - 1)) = 1 / 2 ^ n"
  proof -
    have "e - (int p - 1) = - int n" using ep by (simp add: n_def)
    then show ?thesis by (simp only: power_int_minus power_int_of_nat inverse_eq_divide)
  qed
  have "x / (1 / 2 ^ n) = of_int (k * 2 ^ n)" by (simp add: x_def)
  then have "rne (x / (1 / 2 ^ n)) = k * 2 ^ n" by (simp only: rne_of_int)
  then have "rnd p x = of_int (k * 2 ^ n) * (1 / 2 ^ n)"
    using pos by (simp add: rnd_def Let_def e_def [symmetric] u)
  then show ?thesis by (simp add: x_def)
qed

lemma rnd_numeral: "(numeral n :: int) < 2 ^ p \<Longrightarrow> rnd p (numeral n) = numeral n"
  using rnd_of_int [of "numeral n" p] by simp

lemma rnd_1: "0 < p \<Longrightarrow> rnd p 1 = 1"
  using rnd_of_int [of 1 p] by simp

lemma rne_bounds: "\<lfloor>q\<rfloor> \<le> rne q \<and> rne q \<le> \<lfloor>q\<rfloor> + 1"
  by (simp add: rne_def Let_def)

lemma rne_mono: assumes "a \<le> b" shows "rne a \<le> rne b"
proof -
  have f: "\<lfloor>a\<rfloor> \<le> \<lfloor>b\<rfloor>" using assms by (rule floor_mono)
  show ?thesis
  proof (cases "\<lfloor>a\<rfloor> = \<lfloor>b\<rfloor>")
    case True
    then have "a - of_int \<lfloor>a\<rfloor> \<le> b - of_int \<lfloor>b\<rfloor>" using assms by simp
    then show ?thesis using True by (auto simp: rne_def Let_def)
  next
    case False
    then have "\<lfloor>a\<rfloor> + 1 \<le> \<lfloor>b\<rfloor>" using f by simp
    then show ?thesis using rne_bounds [of a] rne_bounds [of b] by linarith
  qed
qed

lemma rnd_nonneg: assumes "0 \<le> x" shows "0 \<le> rnd p x"
proof (cases "x = 0")
  case True then show ?thesis by simp
next
  case False
  define u :: rat where "u = 2 powi (expo \<bar>x\<bar> - (int p - 1))"
  have u: "0 < u" by (simp add: u_def)
  then have "0 \<le> x / u" using assms by simp
  then have "rne 0 \<le> rne (x / u)" by (rule rne_mono)
  then have "0 \<le> rne (x / u)" using rne_of_int [of 0] by simp
  then show ?thesis using False u by (simp add: rnd_def Let_def u_def [symmetric])
qed

lemma rnd_pos_form:
  assumes "0 < x"
  shows "rnd p x = of_int (rne (x / 2 powi (expo x - (int p - 1)))) * 2 powi (expo x - (int p - 1))"
  using assms by (simp add: rnd_def Let_def)

lemma rnd_binade_bounds:
  assumes "0 < x" "0 < p"
  shows "2 powi (expo x) \<le> rnd p x \<and> rnd p x \<le> 2 powi (expo x + 1)"
proof -
  define e where "e = expo x"
  define u :: rat where "u = 2 powi (e - (int p - 1))"
  have u: "0 < u" by (simp add: u_def)
  from expo_bounds [OF assms(1)] have b: "2 powi e \<le> x" "x < 2 powi (e + 1)" by (simp_all add: e_def)
  have lo: "2 powi e = of_int (2 ^ (p - 1)) * u"
  proof -
    have "e = int (p - 1) + (e - (int p - 1))" using assms(2) by (simp add: of_nat_diff)
    then have "(2::rat) powi e = 2 powi (int (p - 1) + (e - (int p - 1)))" by (rule arg_cong)
    also have "\<dots> = 2 powi (int (p - 1)) * 2 powi (e - (int p - 1))" by (rule power_int_add) simp
    finally show ?thesis by (simp add: u_def)
  qed
  have hi: "2 powi (e + 1) = of_int (2 ^ p) * u"
  proof -
    have "e + 1 = int p + (e - (int p - 1))" by simp
    then have "(2::rat) powi (e + 1) = 2 powi (int p + (e - (int p - 1)))" by (rule arg_cong)
    also have "\<dots> = 2 powi (int p) * 2 powi (e - (int p - 1))" by (rule power_int_add) simp
    finally show ?thesis by (simp add: u_def)
  qed
  have "of_int (2 ^ (p - 1)) \<le> x / u" using b(1) u unfolding lo by (simp add: field_simps)
  then have "rne (of_int (2 ^ (p - 1))) \<le> rne (x / u)" by (rule rne_mono)
  then have 1: "2 ^ (p - 1) \<le> rne (x / u)" by (simp only: rne_of_int)
  have "x / u \<le> of_int (2 ^ p)" using b(2) u unfolding hi by (simp add: field_simps)
  then have "rne (x / u) \<le> rne (of_int (2 ^ p))" by (rule rne_mono)
  then have 2: "rne (x / u) \<le> 2 ^ p" by (simp only: rne_of_int)
  have r: "rnd p x = of_int (rne (x / u)) * u"
    using rnd_pos_form [OF assms(1)] by (simp add: u_def e_def)
  have "of_int (2 ^ (p - 1)) * u \<le> of_int (rne (x / u)) * u"
    using 1 u by (simp only: mult_le_cancel_right_pos of_int_le_iff)
  moreover have "of_int (rne (x / u)) * u \<le> of_int (2 ^ p) * u"
    using 2 u by (simp only: mult_le_cancel_right_pos of_int_le_iff)
  ultimately show ?thesis unfolding r lo hi e_def [symmetric] by simp
qed

lemma expo_mono: assumes "0 < x" "x \<le> y" shows "expo x \<le> expo y"
proof -
  have y: "0 < y" using assms by simp
  from expo_bounds [OF assms(1)] expo_bounds [OF y]
  have "(2::rat) powi (expo x) < 2 powi (expo y + 1)" using assms(2) by linarith
  then have "expo x < expo y + 1" by (rule powi2_less_imp)
  then show ?thesis by simp
qed

lemma rnd_mono_pos:
  assumes "0 < x" "x \<le> y" "0 < p"
  shows "rnd p x \<le> rnd p y"
proof -
  have y: "0 < y" using assms by simp
  have le: "expo x \<le> expo y" using assms(1,2) by (rule expo_mono)
  show ?thesis
  proof (cases "expo x = expo y")
    case True
    define u :: rat where "u = 2 powi (expo y - (int p - 1))"
    have u: "0 < u" by (simp add: u_def)
    have "x / u \<le> y / u" using assms(2) u by (simp add: divide_right_mono)
    then have "rne (x / u) \<le> rne (y / u)" by (rule rne_mono)
    then have "of_int (rne (x / u)) * u \<le> of_int (rne (y / u)) * u"
      using u by (simp only: mult_le_cancel_right_pos of_int_le_iff)
    then show ?thesis
      using rnd_pos_form [OF assms(1), of p] rnd_pos_form [OF y, of p] True by (simp add: u_def)
  next
    case False
    then have "expo x + 1 \<le> expo y" using le by simp
    then have "(2::rat) powi (expo x + 1) \<le> 2 powi (expo y)" by (rule powi2_mono)
    then show ?thesis
      using rnd_binade_bounds [OF assms(1,3)] rnd_binade_bounds [OF y assms(3)] by linarith
  qed
qed

lemma rnd_mono_nonneg:
  assumes "0 \<le> x" "x \<le> y" "0 < p"
  shows "rnd p x \<le> rnd p y"
proof (cases "x = 0")
  case True
  then show ?thesis using rnd_nonneg [of y p] assms by simp
next
  case False
  then show ?thesis using assms by (intro rnd_mono_pos) simp_all
qed

lemma rne_of_int_div: assumes "0 < b" shows "rne (of_int a / of_int b) = rne_div a b"
proof -
  have f: "\<lfloor>(of_int a :: rat) / of_int b\<rfloor> = a div b" by (rule floor_divide_of_int_eq)
  have "(of_int a :: rat) = of_int (a div b * b + a mod b)" by simp
  also have "\<dots> = of_int (a div b) * of_int b + of_int (a mod b)" by (simp only: of_int_add of_int_mult)
  finally have "(of_int a :: rat) / of_int b = of_int (a div b) + of_int (a mod b) / of_int b"
    using assms by (simp add: field_simps)
  then have r: "(of_int a :: rat) / of_int b - of_int (a div b) = of_int (a mod b) / of_int b"
    by simp
  have lt: "((of_int (a mod b) :: rat) / of_int b < 1 / 2) = (2 * (a mod b) < b)"
  proof -
    have "((of_int (a mod b) :: rat) / of_int b < 1 / 2) = ((of_int (2 * (a mod b)) :: rat) < of_int b)"
      using assms by (simp add: field_simps)
    then show ?thesis by (simp only: of_int_less_iff)
  qed
  have gt: "(1 / 2 < (of_int (a mod b) :: rat) / of_int b) = (b < 2 * (a mod b))"
  proof -
    have "(1 / 2 < (of_int (a mod b) :: rat) / of_int b) = ((of_int b :: rat) < of_int (2 * (a mod b)))"
      using assms by (simp add: field_simps)
    then show ?thesis by (simp only: of_int_less_iff)
  qed
  show ?thesis unfolding rne_def rne_div_def Let_def f r lt gt ..
qed

lemma rne_numeral_div:
  "rne (numeral a / numeral b) = rne_div (numeral a) (numeral b)"
  "rne (- (numeral a / numeral b)) = rne_div (- numeral a) (numeral b)"
  using rne_of_int_div [of "numeral b" "numeral a"] rne_of_int_div [of "numeral b" "- numeral a"]
  by simp_all

lemma expo_scale: assumes "0 < x" shows "expo (x * 2 powi j) = expo x + j"
proof (rule expo_unique)
  from expo_bounds [OF assms] have b: "2 powi expo x \<le> x" "x < 2 powi (expo x + 1)" by simp_all
  show "0 < x * 2 powi j" using assms by simp
  have "(2::rat) powi (expo x + j) = 2 powi expo x * 2 powi j" by (rule power_int_add) simp
  then show "2 powi (expo x + j) \<le> x * 2 powi j" using b(1) by simp
  have "(2::rat) powi (expo x + j + 1) = 2 powi (expo x + 1) * 2 powi j"
    using power_int_add [of "2::rat" "expo x + 1" j] by (simp add: add.commute add.left_commute)
  then show "x * 2 powi j < 2 powi (expo x + j + 1)" using b(2) by simp
qed

lemma rnd_scale: "rnd p (x * 2 powi j) = rnd p x * 2 powi j"
proof (cases "x = 0")
  case True then show ?thesis by simp
next
  case False
  then have pos: "0 < \<bar>x\<bar>" by simp
  have a: "\<bar>x * 2 powi j\<bar> = \<bar>x\<bar> * 2 powi j" by (simp add: abs_mult)
  have e: "expo \<bar>x * 2 powi j\<bar> = expo \<bar>x\<bar> + j" unfolding a using pos by (rule expo_scale)
  have "expo \<bar>x\<bar> + j - (int p - 1) = (expo \<bar>x\<bar> - (int p - 1)) + j" by simp
  then have "(2::rat) powi (expo \<bar>x\<bar> + j - (int p - 1)) = 2 powi ((expo \<bar>x\<bar> - (int p - 1)) + j)"
    by (rule arg_cong)
  also have "\<dots> = 2 powi (expo \<bar>x\<bar> - (int p - 1)) * 2 powi j" by (rule power_int_add) simp
  finally have u: "(2::rat) powi (expo \<bar>x\<bar> + j - (int p - 1))
      = 2 powi (expo \<bar>x\<bar> - (int p - 1)) * 2 powi j" .
  show ?thesis using False by (simp add: rnd_def Let_def e u)
qed

lemma rnd_dyadic: assumes "\<bar>k\<bar> < 2 ^ p" shows "rnd p (of_int k / 2 ^ n) = of_int k / 2 ^ n"
proof -
  have "(of_int k :: rat) / 2 ^ n = of_int k * 2 powi (- int n)"
    by (simp add: power_int_minus field_simps)
  then show ?thesis using rnd_scale [of p "of_int k" "- int n"] rnd_of_int [OF assms] by simp
qed

lemma rnd_nonpos: assumes "x \<le> 0" shows "rnd p x \<le> 0"
proof (cases "x = 0")
  case True then show ?thesis by simp
next
  case False
  define u :: rat where "u = 2 powi (expo \<bar>x\<bar> - (int p - 1))"
  have u: "0 < u" by (simp add: u_def)
  then have "x / u \<le> 0" using assms by (simp add: divide_le_0_iff)
  then have "rne (x / u) \<le> rne 0" by (rule rne_mono)
  then have "rne (x / u) \<le> 0" using rne_of_int [of 0] by simp
  then have "of_int (rne (x / u)) * u \<le> 0" using u by (simp add: mult_le_0_iff)
  then show ?thesis using False by (simp add: rnd_def Let_def u_def [symmetric])
qed

lemma rnd_idem: assumes "0 < p" shows "rnd p (rnd p x) = rnd p x"
proof (cases "x = 0")
  case True then show ?thesis by simp
next
  case False
  define e where "e = expo \<bar>x\<bar>"
  define k where "k = e - (int p - 1)"
  define m where "m = rne (x / 2 powi k)"
  have pos: "0 < \<bar>x\<bar>" using False by simp
  from expo_bounds [OF pos] have b: "\<bar>x\<bar> < 2 powi (e + 1)" by (simp add: e_def)
  have r: "rnd p x = of_int m * 2 powi k" using False by (simp add: rnd_def Let_def m_def k_def e_def)
  have "e + 1 = int p + k" by (simp add: k_def)
  then have "(2::rat) powi (e + 1) = 2 powi (int p + k)" by (rule arg_cong)
  also have "\<dots> = 2 powi (int p) * 2 powi k" by (rule power_int_add) simp
  finally have hi: "(2::rat) powi (e + 1) = of_int (2 ^ p) * 2 powi k" by simp
  define y where "y = x / 2 powi k"
  have "\<bar>y\<bar> \<le> of_int (2 ^ p)"
    using b unfolding hi y_def by (simp add: abs_divide field_simps)
  then have "y \<le> of_int (2 ^ p)" "- y \<le> of_int (2 ^ p)"
    unfolding abs_le_iff by blast+
  then have "of_int (- (2 ^ p)) \<le> x / 2 powi k" "x / 2 powi k \<le> of_int (2 ^ p)"
    unfolding y_def [symmetric] by simp_all
  then have "rne (of_int (- (2 ^ p))) \<le> m" "m \<le> rne (of_int (2 ^ p))"
    unfolding m_def by (auto intro: rne_mono)
  then have mb: "- (2 ^ p) \<le> m" "m \<le> 2 ^ p" by (simp_all only: rne_of_int)
  have "rnd p (of_int m) = of_int m"
  proof (cases "\<bar>m\<bar> < 2 ^ p")
    case True
    then show ?thesis by (rule rnd_of_int)
  next
    case False
    then have "m = 2 ^ p \<or> m = - (2 ^ p)" using mb by linarith
    then show ?thesis
    proof
      assume m: "m = 2 ^ p"
      have "rnd p (of_int 1 * 2 powi (int p)) = rnd p (of_int 1) * 2 powi (int p)"
        by (rule rnd_scale)
      moreover have "rnd p (of_int 1) = of_int 1" using assms by (intro rnd_of_int) simp
      ultimately show ?thesis by (simp add: m)
    next
      assume m: "m = - (2 ^ p)"
      have "rnd p (of_int (- 1) * 2 powi (int p)) = rnd p (of_int (- 1)) * 2 powi (int p)"
        by (rule rnd_scale)
      moreover have "rnd p (of_int (- 1)) = of_int (- 1)" using assms by (intro rnd_of_int) simp
      ultimately show ?thesis by (simp add: m)
    qed
  qed
  then show ?thesis unfolding r using rnd_scale [of p "of_int m" k] by simp
qed

lemma is_float_rnd [simp]: "is_float (rnd 24 x)"
  by (simp add: is_float_def rnd_idem)

lemma is_float_ops [simp]:
  "is_float (f32 q)" "is_float (i2f k)" "is_float (fadd a b)" "is_float (fsub a b)"
  "is_float (fmul a b)" "is_float (fdiv a b)" "is_float 0"
  by (simp_all add: f32_def i2f_def fadd_def fsub_def fmul_def fdiv_def) (simp add: is_float_def)

lemma float_above_3: assumes "is_float t" "3 < t" shows "12582913 / 4194304 \<le> t"
proof (rule ccontr)
  assume "\<not> 12582913 / 4194304 \<le> t"
  then have lt: "t < 12582913 / 4194304" by simp
  have "2 powi 1 \<le> \<bar>t\<bar>" "\<bar>t\<bar> < 2 powi (1 + 1)" using assms(2) lt by simp_all
  from rnd_binade [OF this, of 24] assms(1)
  have "t = of_int (rne (t * 4194304)) / 4194304"
    by (simp add: is_float_def power_int_minus)
  then obtain m :: int where m: "t = of_int m / 4194304" by blast
  from assms(2) m have "(of_int 12582912 :: rat) < of_int m" by simp
  then have "12582912 < m" by (simp only: of_int_less_iff)
  moreover from lt m have "(of_int m :: rat) < of_int 12582913" by simp
  then have "m < 12582913" by (simp only: of_int_less_iff)
  ultimately show False by simp
qed

lemma fadd_above_3: assumes "is_float t" "3 < t" "0 \<le> d" shows "3 < fadd t d"
proof -
  have c: "rnd 24 (12582913 / 4194304) = 12582913 / 4194304"
    using rnd_dyadic [of 12582913 24 22] by simp
  have "12582913 / 4194304 \<le> t + d" using float_above_3 [OF assms(1,2)] assms(3) by simp
  then have "rnd 24 (12582913 / 4194304) \<le> rnd 24 (t + d)"
    by (intro rnd_mono_nonneg) simp_all
  then show ?thesis unfolding c fadd_def by simp
qed

lemma isqrt_bounds:
  "0 \<le> n \<Longrightarrow> 0 \<le> isqrt n \<and> isqrt n * isqrt n \<le> n \<and> n < (isqrt n + 1) * (isqrt n + 1)"
proof (induction n rule: isqrt.induct)
  case (1 n)
  show ?case
  proof (cases "n \<le> 0")
    case True
    then have "n = 0" using "1.prems" by simp
    then show ?thesis by (subst (1 2 3 4 5) isqrt.simps) simp
  next
    case False
    define s where "s = isqrt (n div 4)"
    have "0 \<le> n div 4" using "1.prems" by simp
    from "1.IH" [OF False this]
    have s: "0 \<le> s" "s * s \<le> n div 4" "n div 4 < (s + 1) * (s + 1)" by (simp_all add: s_def)
    have lo: "(2 * s) * (2 * s) \<le> n"
    proof -
      have "4 * (s * s) \<le> 4 * (n div 4)" using s(2) by simp
      also have "\<dots> \<le> n"
        using pos_mod_sign [of 4 n] div_mult_mod_eq [of n 4] by linarith
      finally show ?thesis by (simp add: algebra_simps)
    qed
    have hi: "n < (2 * s + 2) * (2 * s + 2)"
    proof -
      have "n div 4 + 1 \<le> (s + 1) * (s + 1)" using s(3) by simp
      then have "4 * (n div 4) + 4 \<le> 4 * ((s + 1) * (s + 1))" by simp
      moreover have "n < 4 * (n div 4) + 4"
        using pos_mod_bound [of 4 n] div_mult_mod_eq [of n 4] by linarith
      ultimately show ?thesis by (simp add: algebra_simps)
    qed
    have e: "isqrt n = (if (2 * s + 1) * (2 * s + 1) \<le> n then 2 * s + 1 else 2 * s)"
      using False by (subst isqrt.simps) (simp add: Let_def s_def)
    show ?thesis
    proof (cases "(2 * s + 1) * (2 * s + 1) \<le> n")
      case True
      then show ?thesis using e s(1) hi by (simp add: algebra_simps)
    next
      case False
      then show ?thesis using e s(1) lo by (simp add: algebra_simps)
    qed
  qed
qed

lemma isqrt_square: assumes "0 \<le> m" shows "isqrt (m * m) = m"
proof -
  define s where "s = isqrt (m * m)"
  have "0 \<le> m * m" using assms by simp
  from isqrt_bounds [OF this]
  have s: "0 \<le> s" "s * s \<le> m * m" "m * m < (s + 1) * (s + 1)" by (simp_all add: s_def)
  have "s \<le> m"
  proof (rule ccontr)
    assume "\<not> s \<le> m"
    then have "m < s" by simp
    then have "m * m < s * s" using assms by (intro mult_strict_mono') simp_all
    then show False using s(2) by simp
  qed
  moreover have "m < s + 1"
  proof (rule ccontr)
    assume "\<not> m < s + 1"
    then have "s + 1 \<le> m" by simp
    then have "(s + 1) * (s + 1) \<le> m * m" using s(1) by (intro mult_mono) simp_all
    then show False using s(3) by simp
  qed
  ultimately show ?thesis unfolding s_def by simp
qed

lemma rnd_sqrt_square:
  assumes "0 < k" "k * k < 2 ^ p" "0 < p"
  shows "rnd_sqrt p (of_int (k * k)) = of_int k"
proof -
  define x :: rat where "x = of_int (k * k)"
  have "1 \<le> k * k" using assms(1) by (simp add: mult_le_cancel_left1 [of k k] order_trans [of 1 k "k * k"])
  then have "(of_int 1 :: rat) \<le> of_int (k * k)" by (simp only: of_int_le_iff)
  then have x: "0 < x" "1 \<le> x" by (simp_all add: x_def)
  from expo_bounds [OF x(1)] have b: "2 powi (expo x) \<le> x" "x < 2 powi (expo x + 1)" by simp_all
  have "x < 2 powi (int p)" using assms(2) unfolding x_def
    by (metis of_int_less_numeral_power_cancel_iff power_int_of_nat)
  then have "(2::rat) powi (expo x) < 2 powi (int p)" using b(1) by linarith
  then have ep: "expo x < int p" by (rule powi2_less_imp)
  have "(2::rat) powi 0 < 2 powi (expo x + 1)" using b(2) x(2) by simp
  then have e0: "0 \<le> expo x" using powi2_less_imp [of 0 "expo x + 1"] by simp
  define h where "h = expo x div 2"
  have h: "0 \<le> h" "h \<le> int p - 1" using e0 ep by (simp_all add: h_def)
  define n where "n = nat (int p - 1 - h)"
  have u: "(2::rat) powi (h - (int p - 1)) = 1 / 2 ^ n"
  proof -
    have "h - (int p - 1) = - int n" using h by (simp add: n_def)
    then show ?thesis by (simp only: power_int_minus power_int_of_nat inverse_eq_divide)
  qed
  define m where "m = k * 2 ^ n"
  have m0: "0 \<le> m" using assms(1) by (simp add: m_def)
  have q: "x * (2 ^ n * 2 ^ n) = of_int (m * m)"
    by (simp add: x_def m_def algebra_simps)
  have lt: "(of_int (m * m) :: rat) < (of_int m + 1 / 2) * (of_int m + 1 / 2)"
    using m0 by (simp add: algebra_simps)
  have "rnd_sqrt p x = of_int m * (1 / 2 ^ n)"
    using x(1) lt
    by (simp add: rnd_sqrt_def Let_def h_def [symmetric] u q isqrt_square [OF m0] del: of_int_mult)
  then show ?thesis by (simp add: x_def m_def)
qed

lemma fsub_self [simp]: "fsub a a = 0"
  by (simp add: fsub_def)

lemma rnd_sqrt_0 [simp]: "rnd_sqrt p 0 = 0"
  by (simp add: rnd_sqrt_def)

lemma f32_numeral: "(numeral n :: int) < 2 ^ 24 \<Longrightarrow> f32 (numeral n) = numeral n"
  by (simp add: f32_def rnd_numeral)

lemma i2f_exact: "\<bar>k\<bar> < 2 ^ 24 \<Longrightarrow> i2f k = of_int k"
  by (simp add: i2f_def rnd_of_int)

lemma f32_0 [simp]: "f32 0 = 0"
  by (simp add: f32_def)

lemmas float_consts =
  WINDOW_WIDTH_def WINDOW_HEIGHT_def PLAYER_SPEED_def ENEMY_SPEED_def BULLET_SPEED_def
  f32_numeral i2f_exact

lemmas float_eval =
  fadd_def fsub_def fmul_def fdiv_def fsqrt_def f32_def i2f_def rnd_numeral

lemma rnd24_1 [simp]: "rnd 24 1 = 1"
  by (simp add: rnd_1)

section \<open>Facts about the operations\<close>

lemma vec_length_zero: "vec_length \<lparr>vx = 0, vy = 0\<rparr> = 0"
  by (simp add: vec_length_def fsqrt_def fadd_def fmul_def)

lemma Enemy_update_same_position: "position e = playerPos \<Longrightarrow> Enemy_update playerPos e = e"
  by (simp add: Enemy_update_def vec_sub_def vec_length_zero)

lemma Bullet_ctor_zero_direction:
  "bullet_velocity (Bullet_ctor x y 0 0) = \<lparr>vx = 0, vy = 0\<rparr>"
  by (simp add: Bullet_ctor_def fsqrt_def fadd_def fmul_def)

lemma Bullet_ctor_position: "shape_position (Bullet_ctor x y dirX dirY) = \<lparr>vx = x, vy = y\<rparr>"
  by (simp add: Bullet_ctor_def Let_def)

subsection \<open>The bullet scan and the enemy loop\<close>

lemma bullet_scan_score:
  "\<not> scan_dead s \<Longrightarrow>
     scan_score (bullet_scan bs s) = scan_score s + (if scan_dead (bullet_scan bs s) then 10 else 0)
   \<and> scan_killCount (bullet_scan bs s)
       = scan_killCount s + (if scan_dead (bullet_scan bs s) then 1 else 0)"
  by (induction bs arbitrary: s) (simp_all add: Let_def)

lemma bullet_scan_enemy:
  "health (scan_enemy (bullet_scan bs s)) \<le> health (scan_enemy s)
   \<and> speed (scan_enemy (bullet_scan bs s)) = speed (scan_enemy s)
   \<and> position (scan_enemy (bullet_scan bs s)) = position (scan_enemy s)
   \<and> velocity (scan_enemy (bullet_scan bs s)) = velocity (scan_enemy s)"
proof (induction bs arbitrary: s)
  case Nil
  show ?case by simp
next
  case (Cons b bs)
  show ?case using Cons [of "s\<lparr>scan_bullets := scan_bullets s @ [b]\<rparr>"]
    by (simp add: Let_def Entity_takeDamage_def)
qed

lemma bullet_scan_alive:
  "\<not> scan_dead s \<Longrightarrow> Entity_isAlive (scan_enemy s) \<Longrightarrow>
     scan_dead (bullet_scan bs s) = (\<not> Entity_isAlive (scan_enemy (bullet_scan bs s)))"
  by (induction bs arbitrary: s) (simp_all add: Let_def)

lemma bullet_scan_subset:
  "set (scan_bullets (bullet_scan bs s)) \<subseteq> set (scan_bullets s) \<union> set bs"
proof (induction bs arbitrary: s)
  case Nil
  show ?case by simp
next
  case (Cons b bs)
  show ?case using Cons [of "s\<lparr>scan_bullets := scan_bullets s @ [b]\<rparr>"]
    by (auto simp: Let_def)
qed

lemma enemy_step_frame:
  "safeZone (enemy_step e g) = safeZone g" "clock (enemy_step e g) = clock g"
  "bulletClock (enemy_step e g) = bulletClock g"
  "timeSinceLastSpawn (enemy_step e g) = timeSinceLastSpawn g"
  "window_isOpen (enemy_step e g) = window_isOpen g" "effects (enemy_step e g) = effects g"
  "position (player (enemy_step e g)) = position (player g)"
  "velocity (player (enemy_step e g)) = velocity (player g)"
  "speed (player (enemy_step e g)) = speed (player g)"
  by (simp_all add: enemy_step_def Let_def Entity_takeDamage_def)

lemma enemy_step_bullets: "set (bullets (enemy_step e g)) \<subseteq> set (bullets g)"
  using bullet_scan_subset [of "bullets g"
      "\<lparr>scan_enemy = Entity_move (Enemy_update (position (player g)) e), scan_bullets = [],
        scan_score = score g, scan_killCount = killCount g, scan_dead = False\<rparr>"]
  by (simp add: enemy_step_def Let_def)

lemma enemy_step_player_health:
  "health (player (enemy_step e g)) \<le> health (player g)
   \<and> health (player g) - 1 \<le> health (player (enemy_step e g))"
  by (simp add: enemy_step_def Let_def Entity_takeDamage_def)

lemma enemy_step_enemies:
  "enemies (enemy_step e g) = enemies g
   \<or> (\<exists>e'. enemies (enemy_step e g) = enemies g @ [e'] \<and> health e' \<le> health e
            \<and> speed e' = speed e)"
proof -
  define e1 where "e1 = Entity_move (Enemy_update (position (player g)) e)"
  have "health e1 = health e" "speed e1 = speed e"
    by (simp_all add: e1_def Entity_move_def Enemy_update_def Let_def)
  then show ?thesis
    using bullet_scan_enemy [of "bullets g" "\<lparr>scan_enemy = e1, scan_bullets = [],
      scan_score = score g, scan_killCount = killCount g, scan_dead = False\<rparr>"]
    by (simp add: enemy_step_def Let_def e1_def [symmetric])
qed

lemma enemy_step_score:
  "(enemies (enemy_step e g) = enemies g \<and> score (enemy_step e g) = score g + 10
      \<and> killCount (enemy_step e g) = killCount g + 1)
   \<or> (length (enemies (enemy_step e g)) = length (enemies g) + 1
      \<and> score (enemy_step e g) = score g \<and> killCount (enemy_step e g) = killCount g)"
  using bullet_scan_score [of "\<lparr>scan_enemy = Entity_move (Enemy_update (position (player g)) e),
      scan_bullets = [], scan_score = score g, scan_killCount = killCount g, scan_dead = False\<rparr>"
      "bullets g"]
  by (simp add: enemy_step_def Let_def)

lemma enemy_loop_frame:
  "safeZone (enemy_loop es g) = safeZone g" "clock (enemy_loop es g) = clock g"
  "bulletClock (enemy_loop es g) = bulletClock g"
  "timeSinceLastSpawn (enemy_loop es g) = timeSinceLastSpawn g"
  "window_isOpen (enemy_loop es g) = window_isOpen g" "effects (enemy_loop es g) = effects g"
  "position (player (enemy_loop es g)) = position (player g)"
  "velocity (player (enemy_loop es g)) = velocity (player g)"
  "speed (player (enemy_loop es g)) = speed (player g)"
  by (induction es arbitrary: g) (simp_all add: enemy_step_frame)

lemma enemy_loop_bullets: "set (bullets (enemy_loop es g)) \<subseteq> set (bullets g)"
proof (induction es arbitrary: g)
  case Nil
  show ?case by simp
next
  case (Cons e es)
  show ?case using Cons [of "enemy_step e g"] enemy_step_bullets [of e g] by auto
qed

lemma enemy_loop_player_health: "health (player (enemy_loop es g)) \<le> health (player g)"
proof (induction es arbitrary: g)
  case Nil
  show ?case by simp
next
  case (Cons e es)
  show ?case using Cons [of "enemy_step e g"] enemy_step_player_health [of e g] by simp
qed

lemma enemy_loop_score:
  "\<exists>k. score (enemy_loop es g) = score g + 10 * int k
     \<and> killCount (enemy_loop es g) = killCount g + int k
     \<and> length (enemies (enemy_loop es g)) + k = length (enemies g) + length es"
proof (induction es arbitrary: g)
  case Nil
  show ?case by simp
next
  case (Cons e es)
  from Cons [of "enemy_step e g"] obtain k where
    k: "score (enemy_loop es (enemy_step e g)) = score (enemy_step e g) + 10 * int k"
       "killCount (enemy_loop es (enemy_step e g)) = killCount (enemy_step e g) + int k"
       "length (enemies (enemy_loop es (enemy_step e g))) + k
          = length (enemies (enemy_step e g)) + length es"
    by blast
  from enemy_step_score [of e g] show ?case
  proof
    assume "enemies (enemy_step e g) = enemies g \<and> score (enemy_step e g) = score g + 10
      \<and> killCount (enemy_step e g) = killCount g + 1"
    then show ?thesis using k by (intro exI [of _ "Suc k"]) simp
  next
    assume "length (enemies (enemy_step e g)) = length (enemies g) + 1
      \<and> score (enemy_step e g) = score g \<and> killCount (enemy_step e g) = killCount g"
    then show ?thesis using k by (intro exI [of _ k]) simp
  qed
qed

lemma enemy_loop_enemies:
  "\<exists>xs ys. subseq xs es
     \<and> list_all2 (\<lambda>e e'. health e' \<le> health e \<and> speed e' = speed e) xs ys
     \<and> enemies (enemy_loop es g) = enemies g @ ys"
proof (induction es arbitrary: g)
  case Nil
  show ?case by simp
next
  case (Cons e es)
  from Cons [of "enemy_step e g"] obtain xs ys where
    r: "subseq xs es" "list_all2 (\<lambda>e e'. health e' \<le> health e \<and> speed e' = speed e) xs ys"
       "enemies (enemy_loop es (enemy_step e g)) = enemies (enemy_step e g) @ ys"
    by blast
  from enemy_step_enemies [of e g] show ?case
  proof
    assume "enemies (enemy_step e g) = enemies g"
    then have "subseq xs (e # es)
      \<and> list_all2 (\<lambda>e e'. health e' \<le> health e \<and> speed e' = speed e) xs ys
      \<and> enemies (enemy_loop (e # es) g) = enemies g @ ys"
      using r by (simp add: list_emb_Cons)
    then show ?thesis by blast
  next
    assume "\<exists>e'. enemies (enemy_step e g) = enemies g @ [e'] \<and> health e' \<le> health e
      \<and> speed e' = speed e"
    then obtain e' where "enemies (enemy_step e g) = enemies g @ [e']" "health e' \<le> health e"
      "speed e' = speed e" by blast
    then have "subseq (e # xs) (e # es)
      \<and> list_all2 (\<lambda>e e'. health e' \<le> health e \<and> speed e' = speed e) (e # xs) (e' # ys)
      \<and> enemies (enemy_loop (e # es) g) = enemies g @ (e' # ys)"
      using r by simp
    then show ?thesis by blast
  qed
qed

subsection \<open>What each phase of a frame leaves unchanged\<close>

lemma handle_event_frame:
  "player (handle_event ev g) = player g" "enemies (handle_event ev g) = enemies g"
  "safeZone (handle_event ev g) = safeZone g" "clock (handle_event ev g) = clock g"
  "timeSinceLastSpawn (handle_event ev g) = timeSinceLastSpawn g"
  "score (handle_event ev g) = score g" "killCount (handle_event ev g) = killCount g"
  by (simp_all add: handle_event_def fire_def Let_def)

lemma poll_events_frame:
  "player (poll_events evs g) = player g" "enemies (poll_events evs g) = enemies g"
  "safeZone (poll_events evs g) = safeZone g" "clock (poll_events evs g) = clock g"
  "timeSinceLastSpawn (poll_events evs g) = timeSinceLastSpawn g"
  "score (poll_events evs g) = score g" "killCount (poll_events evs g) = killCount g"
  by (induction evs arbitrary: g) (simp_all add: handle_event_frame)

lemma update_enemies_frame:
  "safeZone (update_enemies g) = safeZone g" "clock (update_enemies g) = clock g"
  "bulletClock (update_enemies g) = bulletClock g"
  "timeSinceLastSpawn (update_enemies g) = timeSinceLastSpawn g"
  "window_isOpen (update_enemies g) = window_isOpen g" "effects (update_enemies g) = effects g"
  "position (player (update_enemies g)) = position (player g)"
  by (simp_all add: update_enemies_def enemy_loop_frame)

lemma update_zone_frame:
  "enemies (update_zone g) = enemies g" "bullets (update_zone g) = bullets g"
  "clock (update_zone g) = clock g" "bulletClock (update_zone g) = bulletClock g"
  "timeSinceLastSpawn (update_zone g) = timeSinceLastSpawn g"
  "score (update_zone g) = score g" "killCount (update_zone g) = killCount g"
  "window_isOpen (update_zone g) = window_isOpen g" "effects (update_zone g) = effects g"
  "position (player (update_zone g)) = position (player g)"
  by (simp_all add: update_zone_def Let_def Entity_takeDamage_def)

lemma spawn_enemy_frame:
  "player (spawn_enemy f g) = player g" "bullets (spawn_enemy f g) = bullets g"
  "safeZone (spawn_enemy f g) = safeZone g"
  "clock (spawn_enemy f g) = clock g" "bulletClock (spawn_enemy f g) = bulletClock g"
  "score (spawn_enemy f g) = score g" "killCount (spawn_enemy f g) = killCount g"
  "window_isOpen (spawn_enemy f g) = window_isOpen g" "effects (spawn_enemy f g) = effects g"
  by (simp_all add: spawn_enemy_def)

lemma game_over_frame:
  "player (game_over g) = player g" "enemies (game_over g) = enemies g"
  "bullets (game_over g) = bullets g" "safeZone (game_over g) = safeZone g"
  "clock (game_over g) = clock g" "bulletClock (game_over g) = bulletClock g"
  "timeSinceLastSpawn (game_over g) = timeSinceLastSpawn g"
  "score (game_over g) = score g" "killCount (game_over g) = killCount g"
  by (simp_all add: game_over_def)

lemma simulate_frame:
  "window_isOpen (simulate f g) = window_isOpen g" "effects (simulate f g) = effects g"
  "bulletClock (simulate f g) = bulletClock g" "clock (simulate f g) = clock_now f"
  by (simp_all add: simulate_def before_spawn_def Let_def spawn_enemy_frame update_zone_frame update_enemies_frame
      move_player_def advance_clock_def)

lemma main_loop_closed: "\<not> window_isOpen g \<Longrightarrow> main_loop fs g = g"
  by (cases fs) simp_all

subsection \<open>Score and kill count\<close>

lemma update_enemies_score:
  "\<exists>k. score (update_enemies g) = score g + 10 * int k
     \<and> killCount (update_enemies g) = killCount g + int k
     \<and> length (enemies (update_enemies g)) + k = length (enemies g)"
  using enemy_loop_score [of "enemies g" "g\<lparr>enemies := []\<rparr>"] by (simp add: update_enemies_def)

lemma simulate_score:
  "\<exists>k. score (simulate f g) = score g + 10 * int k
     \<and> killCount (simulate f g) = killCount g + int k"
proof -
  define g3 where "g3 = (move_player f (advance_clock f g))
    \<lparr>bullets := update_bullets (bullets (move_player f (advance_clock f g)))\<rparr>"
  have s: "score g3 = score g" "killCount g3 = killCount g"
    by (simp_all add: g3_def move_player_def advance_clock_def Let_def)
  from update_enemies_score [of g3] obtain k where
    "score (update_enemies g3) = score g3 + 10 * int k"
    "killCount (update_enemies g3) = killCount g3 + int k" by blast
  then have "score (simulate f g) = score g + 10 * int k
     \<and> killCount (simulate f g) = killCount g + int k"
    by (simp add: simulate_def before_spawn_def Let_def g3_def [symmetric] spawn_enemy_frame update_zone_frame s)
  then show ?thesis by blast
qed

lemma loop_body_score:
  "\<exists>k. score (loop_body f g) = score g + 10 * int k
     \<and> killCount (loop_body f g) = killCount g + int k"
  using simulate_score [of f "poll_events (events f) g"]
  by (simp add: loop_body_def game_over_frame poll_events_frame)

lemma main_loop_score_invariant:
  "score g = 10 * killCount g \<Longrightarrow> score (main_loop fs g) = 10 * killCount (main_loop fs g)"
proof (induction fs arbitrary: g)
  case Nil
  then show ?case by simp
next
  case (Cons f fs)
  from loop_body_score [of f g] obtain k where
    "score (loop_body f g) = score g + 10 * int k"
    "killCount (loop_body f g) = killCount g + int k" by blast
  then have "score (loop_body f g) = 10 * killCount (loop_body f g)" using Cons.prems by simp
  then show ?case using Cons.IH [of "loop_body f g"] Cons.prems by simp
qed

subsection \<open>Health\<close>

lemma move_player_health: "health (player (move_player f g)) = health (player g)"
  by (simp add: move_player_def Entity_move_def Player_handleInput_def Let_def)

lemma update_zone_health:
  "health (player (update_zone g)) \<le> health (player g)
   \<and> health (player g) - 1 \<le> health (player (update_zone g))"
  by (simp add: update_zone_def Let_def Entity_takeDamage_def)

lemma simulate_player_health: "health (player (simulate f g)) \<le> health (player g)"
proof -
  define g3 where "g3 = (move_player f (advance_clock f g))
    \<lparr>bullets := update_bullets (bullets (move_player f (advance_clock f g)))\<rparr>"
  have "health (player g3) = health (player g)"
    by (simp add: g3_def move_player_health) (simp add: advance_clock_def Let_def)
  moreover have "health (player (update_enemies g3)) \<le> health (player g3)"
    by (simp add: update_enemies_def)
      (use enemy_loop_player_health [of "enemies g3" "g3\<lparr>enemies := []\<rparr>"] in simp)
  moreover have "health (player (update_zone (update_enemies g3))) \<le> health (player (update_enemies g3))"
    using update_zone_health by blast
  ultimately show ?thesis
    by (simp add: simulate_def before_spawn_def Let_def g3_def [symmetric] spawn_enemy_frame)
qed

lemma loop_body_player_health: "health (player (loop_body f g)) \<le> health (player g)"
  using simulate_player_health [of f "poll_events (events f) g"]
  by (simp add: loop_body_def game_over_frame poll_events_frame)

lemma main_loop_player_health: "health (player (main_loop fs g)) \<le> health (player g)"
proof (induction fs arbitrary: g)
  case Nil
  show ?case by simp
next
  case (Cons f fs)
  show ?case using Cons [of "loop_body f g"] loop_body_player_health [of f g] by simp
qed

lemma simulate_enemies:
  "\<exists>xs ys new. subseq xs (enemies g)
     \<and> list_all2 (\<lambda>e e'. health e' \<le> health e \<and> speed e' = speed e) xs ys
     \<and> enemies (simulate f g) = ys @ new
     \<and> (new = [] \<or> new = [spawn (rand_x f) (rand_y f) (rand_speed f)])"
proof -
  define g3 where "g3 = (move_player f (advance_clock f g))
    \<lparr>bullets := update_bullets (bullets (move_player f (advance_clock f g)))\<rparr>"
  have e3: "enemies g3 = enemies g"
    by (simp add: g3_def move_player_def advance_clock_def Let_def)
  from enemy_loop_enemies [of "enemies g3" "g3\<lparr>enemies := []\<rparr>"] obtain xs ys where
    r: "subseq xs (enemies g)"
       "list_all2 (\<lambda>e e'. health e' \<le> health e \<and> speed e' = speed e) xs ys"
       "enemies (update_enemies g3) = ys"
    by (auto simp: update_enemies_def e3)
  define new where "new = (if timeSinceLastSpawn (update_zone (update_enemies g3)) > f32 3
      \<and> length (enemies (update_zone (update_enemies g3))) < 10
    then [spawn (rand_x f) (rand_y f) (rand_speed f)] else [])"
  have "enemies (simulate f g) = ys @ new"
    by (simp add: simulate_def before_spawn_def Let_def g3_def [symmetric] spawn_enemy_def new_def
        update_zone_frame r(3))
  moreover have "new = [] \<or> new = [spawn (rand_x f) (rand_y f) (rand_speed f)]"
    by (simp add: new_def)
  ultimately show ?thesis using r(1,2) by blast
qed

subsection \<open>Bullets and the window\<close>

lemma out_of_window_iff:
  "out_of_window p = (vx p < 0 \<or> 1200 < vx p \<or> vy p < 0 \<or> 700 < vy p)"
  by (simp add: out_of_window_def WINDOW_WIDTH_def WINDOW_HEIGHT_def i2f_exact)

lemma update_bullets_filter:
  "update_bullets bs = filter (\<lambda>b. \<not> out_of_window (shape_position b)) (map Bullet_move bs)"
  by (induction bs) (simp_all add: Let_def)

lemma simulate_bullets:
  "set (bullets (simulate f g)) \<subseteq> set (update_bullets (bullets g))"
proof -
  define g3 where "g3 = (move_player f (advance_clock f g))
    \<lparr>bullets := update_bullets (bullets (move_player f (advance_clock f g)))\<rparr>"
  have b3: "bullets g3 = update_bullets (bullets g)"
    by (simp add: g3_def move_player_def advance_clock_def Let_def)
  have "set (bullets (update_enemies g3)) \<subseteq> set (bullets g3)"
    using enemy_loop_bullets [of "enemies g3" "g3\<lparr>enemies := []\<rparr>"]
    by (simp add: update_enemies_def)
  then show ?thesis
    by (simp add: simulate_def before_spawn_def Let_def g3_def [symmetric] spawn_enemy_frame update_zone_frame b3)
qed

subsection \<open>The end of the game\<close>

lemma handle_event_effects:
  "\<exists>n. effects (handle_event ev g) = effects g @ replicate n PlayShootSound"
proof (cases "event_type ev = MouseButtonPressed Mouse_Left
    \<and> asSeconds (bulletClock_now ev - bulletClock g) > BULLET_COOLDOWN")
  case True
  then have "effects (handle_event ev g) = effects g @ replicate 1 PlayShootSound"
    by (auto simp: handle_event_def fire_def Let_def)
  then show ?thesis by blast
next
  case False
  then have "effects (handle_event ev g) = effects g @ replicate 0 PlayShootSound"
    by (auto simp: handle_event_def fire_def Let_def)
  then show ?thesis by blast
qed

lemma poll_events_effects:
  "\<exists>n. effects (poll_events evs g) = effects g @ replicate n PlayShootSound"
proof (induction evs arbitrary: g)
  case Nil
  have "effects (poll_events [] g) = effects g @ replicate 0 PlayShootSound" by simp
  then show ?case by blast
next
  case (Cons ev evs)
  show ?case
  proof (cases "window_isOpen g")
    case True
    from handle_event_effects [of ev g] obtain n where
      n: "effects (handle_event ev g) = effects g @ replicate n PlayShootSound" by blast
    from Cons [of "handle_event ev g"] obtain m where
      "effects (poll_events evs (handle_event ev g))
         = effects (handle_event ev g) @ replicate m PlayShootSound" by blast
    then have "effects (poll_events (ev # evs) g) = effects g @ replicate (n + m) PlayShootSound"
      using True n by (simp add: replicate_add)
    then show ?thesis by blast
  next
    case False
    then have "effects (poll_events (ev # evs) g) = effects g @ replicate 0 PlayShootSound" by simp
    then show ?thesis by blast
  qed
qed

lemma loop_body_dead:
  assumes "\<not> Entity_isAlive (player (simulate f (poll_events (events f) g)))"
  shows "effects (loop_body f g)
           = effects (poll_events (events f) g)
             @ [WriteFile ''game_score.txt'' (score_text (loop_body f g)),
                GameOverScreen (game_over_text (loop_body f g)), Sleep 3]"
    and "\<not> window_isOpen (loop_body f g)"
    and "\<not> Entity_isAlive (player (loop_body f g))"
  using assms
  by (simp_all add: loop_body_def game_over_def simulate_frame score_text_def game_over_text_def)

lemma loop_body_alive:
  assumes "Entity_isAlive (player (simulate f (poll_events (events f) g)))"
  shows "effects (loop_body f g) = effects (poll_events (events f) g)"
    and "window_isOpen (loop_body f g) = window_isOpen (poll_events (events f) g)"
    and "Entity_isAlive (player (loop_body f g))"
  using assms by (simp_all add: loop_body_def game_over_def simulate_frame)

lemma loop_body_run_effects:
  assumes "run_effects g" "window_isOpen g"
  shows "run_effects (loop_body f g)"
proof -
  from assms have alive: "Entity_isAlive (player g)" by (auto simp: run_effects_def)
  with assms(1) obtain n where n: "effects g = replicate n PlayShootSound"
    by (auto simp: run_effects_def)
  from poll_events_effects [of "events f" g] obtain m where
    m: "effects (poll_events (events f) g) = replicate (n + m) PlayShootSound"
    by (auto simp: n replicate_add)
  show ?thesis
  proof (cases "Entity_isAlive (player (simulate f (poll_events (events f) g)))")
    case True
    from loop_body_alive [OF True] m show ?thesis by (auto simp: run_effects_def)
  next
    case False
    from loop_body_dead [OF False] m show ?thesis by (auto simp: run_effects_def)
  qed
qed

lemma main_loop_run_effects: "run_effects g \<Longrightarrow> run_effects (main_loop fs g)"
proof (induction fs arbitrary: g)
  case Nil
  then show ?case by simp
next
  case (Cons f fs)
  show ?case
  proof (cases "window_isOpen g")
    case True
    then show ?thesis using Cons.IH [OF loop_body_run_effects [OF Cons.prems True]] by simp
  next
    case False
    then show ?thesis using Cons.prems by simp
  qed
qed

lemma initial_run_effects: "run_effects (initial t_clock t_bulletClock rands)"
proof -
  have a: "Entity_isAlive (player (initial t_clock t_bulletClock rands))"
    by (simp add: initial_def Player_ctor_def Entity_ctor_def Entity_isAlive_def)
  have "effects (initial t_clock t_bulletClock rands) = replicate 0 PlayShootSound @ []"
    by (simp add: initial_def)
  then have "\<exists>n. effects (initial t_clock t_bulletClock rands) = replicate n PlayShootSound @ []"
    by (rule exI)
  then show ?thesis using a by (simp add: run_effects_def)
qed

subsection \<open>Evaluating frames\<close>

lemma Player_ctor_eval:
  "Player_ctor = \<lparr>position = \<lparr>vx = 600, vy = 350\<rparr>, velocity = \<lparr>vx = 0, vy = 0\<rparr>,
                   speed = 3, health = 100\<rparr>"
  by (simp add: Player_ctor_def Entity_ctor_def float_consts)

lemma spawn_on_player:
  "spawn 600 350 0 = \<lparr>position = \<lparr>vx = 600, vy = 350\<rparr>, velocity = \<lparr>vx = 0, vy = 0\<rparr>,
                        speed = 1, health = 50\<rparr>"
  by (simp add: spawn_def Enemy_ctor_def Entity_ctor_def float_consts float_eval)

lemma touches_same_position: "position p = position e \<Longrightarrow> touches p e"
  by (simp add: touches_def float_eval)

lemma Player_handleInput_no_keys:
  "Player_handleInput False False False False e = e\<lparr>velocity := \<lparr>vx = 0, vy = 0\<rparr>\<rparr>"
  by (simp add: Player_handleInput_def)

lemma simulate_player_health_after_enemies:
  "health (player (simulate f g))
     \<le> health (player (update_enemies ((move_player f (advance_clock f g))
           \<lparr>bullets := update_bullets (bullets (move_player f (advance_clock f g)))\<rparr>)))"
  using update_zone_health by (simp add: simulate_def before_spawn_def Let_def spawn_enemy_frame)

lemma enemy_loop_player_health_lower:
  "health (player g) - int (length es) \<le> health (player (enemy_loop es g))"
proof (induction es arbitrary: g)
  case Nil
  show ?case by simp
next
  case (Cons e es)
  show ?case using Cons [of "enemy_step e g"] enemy_step_player_health [of e g] by simp
qed

lemma simulate_player_health_lower:
  "health (player g) - int (length (enemies g)) - 1 \<le> health (player (simulate f g))"
proof -
  define g3 where "g3 = (move_player f (advance_clock f g))
    \<lparr>bullets := update_bullets (bullets (move_player f (advance_clock f g)))\<rparr>"
  have "health (player g3) = health (player g)" "enemies g3 = enemies g"
    by (simp_all add: g3_def move_player_health) (simp_all add: advance_clock_def move_player_def Let_def)
  moreover have "health (player g3) - int (length (enemies g3)) \<le> health (player (update_enemies g3))"
    using enemy_loop_player_health_lower [of "g3\<lparr>enemies := []\<rparr>" "enemies g3"]
    by (simp add: update_enemies_def)
  moreover have "health (player (update_enemies g3)) - 1
      \<le> health (player (update_zone (update_enemies g3)))"
    using update_zone_health by blast
  ultimately show ?thesis
    by (simp add: simulate_def before_spawn_def Let_def g3_def [symmetric] spawn_enemy_frame)
qed

lemma simulate_score_after_enemies:
  "score (simulate f g)
     = score (update_enemies ((move_player f (advance_clock f g))
           \<lparr>bullets := update_bullets (bullets (move_player f (advance_clock f g)))\<rparr>))"
  "killCount (simulate f g)
     = killCount (update_enemies ((move_player f (advance_clock f g))
           \<lparr>bullets := update_bullets (bullets (move_player f (advance_clock f g)))\<rparr>))"
  by (simp_all add: simulate_def before_spawn_def Let_def spawn_enemy_frame update_zone_frame)

subsection \<open>Clock readings\<close>

lemma asSeconds_nonneg: assumes "0 \<le> d" shows "0 \<le> asSeconds d"
proof -
  have "0 \<le> i2f d" unfolding i2f_def using assms by (intro rnd_nonneg) simp
  then show ?thesis unfolding asSeconds_def fdiv_def
    by (intro rnd_nonneg) (simp add: f32_numeral)
qed

lemma asSeconds_nonpos: assumes "d \<le> 0" shows "asSeconds d \<le> 0"
proof -
  have "i2f d \<le> 0" unfolding i2f_def using assms by (intro rnd_nonpos) simp
  then show ?thesis unfolding asSeconds_def fdiv_def
    by (intro rnd_nonpos) (simp add: f32_numeral divide_le_0_iff)
qed

lemma asSeconds_mono: assumes "0 \<le> d" "d \<le> d'" shows "asSeconds d \<le> asSeconds d'"
proof -
  have 0: "0 \<le> i2f d" unfolding i2f_def using assms by (intro rnd_nonneg) simp
  have "i2f d \<le> i2f d'" unfolding i2f_def using assms by (intro rnd_mono_nonneg) simp_all
  then show ?thesis unfolding asSeconds_def fdiv_def using 0
    by (intro rnd_mono_nonneg) (simp_all add: f32_numeral divide_right_mono)
qed

lemma BULLET_COOLDOWN_eval: "BULLET_COOLDOWN = 5033165 / 16777216"
  unfolding BULLET_COOLDOWN_def f32_def
  using rnd_binade [of "-2" "3/10" 24]
  by (simp add: power_int_minus rne_numeral_div rne_div_def Let_def)

lemma asSeconds_300000: "asSeconds 300000 = BULLET_COOLDOWN"
  by (simp add: asSeconds_def BULLET_COOLDOWN_def fdiv_def f32_numeral i2f_exact) (simp add: f32_def)

lemma asSeconds_300001: "asSeconds 300001 = 10066363 / 33554432"
  unfolding asSeconds_def fdiv_def
  using rnd_binade [of "-2" "300001/1000000" 24]
  by (simp add: f32_numeral i2f_exact power_int_minus rne_numeral_div rne_div_def Let_def)

lemma cooldown_threshold: "(BULLET_COOLDOWN < asSeconds d) = (300000 < d)"
proof (cases "300000 < d")
  case True
  then have "asSeconds 300001 \<le> asSeconds d" by (intro asSeconds_mono) simp_all
  then show ?thesis using True by (simp add: asSeconds_300001 BULLET_COOLDOWN_eval)
next
  case False
  show ?thesis
  proof (cases "0 \<le> d")
    case True
    then have "asSeconds d \<le> asSeconds 300000" using False by (intro asSeconds_mono) simp_all
    then show ?thesis using False by (simp add: asSeconds_300000)
  next
    case neg: False
    then have "asSeconds d \<le> 0" by (intro asSeconds_nonpos) simp
    then show ?thesis using False by (simp add: BULLET_COOLDOWN_eval)
  qed
qed

subsection \<open>Spawning\<close>

lemma spawn_position:
  "position (spawn rx ry rs)
     = \<lparr>vx = of_int (int rx mod 1200), vy = of_int (int ry mod 700)\<rparr>"
proof -
  have "\<bar>int rx mod 1200\<bar> < 2 ^ 24" "\<bar>int ry mod 700\<bar> < 2 ^ 24"
    using pos_mod_bound [of 1200 "int rx"] pos_mod_bound [of 700 "int ry"]
      pos_mod_sign [of 1200 "int rx"] pos_mod_sign [of 700 "int ry"] by simp_all
  then show ?thesis
    by (simp add: spawn_def Enemy_ctor_def Entity_ctor_def WINDOW_WIDTH_def WINDOW_HEIGHT_def
        i2f_exact)
qed

lemma spawn_in_window:
  "0 \<le> vx (position (spawn rx ry rs)) \<and> vx (position (spawn rx ry rs)) < 1200
   \<and> 0 \<le> vy (position (spawn rx ry rs)) \<and> vy (position (spawn rx ry rs)) < 700"
proof -
  have "(of_int (int rx mod 1200) :: rat) < of_int 1200" "(of_int (int ry mod 700) :: rat) < of_int 700"
    by (simp_all only: of_int_less_iff pos_mod_bound zero_less_numeral)
  then show ?thesis by (simp add: spawn_position)
qed

lemma before_spawn_timer:
  "timeSinceLastSpawn (before_spawn f g)
     = fadd (timeSinceLastSpawn g) (asSeconds (clock_now f - clock g))"
  "clock (before_spawn f g) = clock_now f"
  by (simp_all add: before_spawn_def Let_def update_zone_frame update_enemies_frame
      move_player_def advance_clock_def)

lemma before_spawn_count: "length (enemies (before_spawn f g)) \<le> length (enemies g)"
proof -
  define g3 where "g3 = (move_player f (advance_clock f g))
    \<lparr>bullets := update_bullets (bullets (move_player f (advance_clock f g)))\<rparr>"
  have e3: "enemies g3 = enemies g"
    by (simp add: g3_def move_player_def advance_clock_def Let_def)
  from update_enemies_score [of g3] obtain k where
    "length (enemies (update_enemies g3)) + k = length (enemies g3)" by blast
  then show ?thesis
    by (simp add: before_spawn_def Let_def g3_def [symmetric] update_zone_frame e3)
qed

lemma simulate_count:
  "length (enemies g) \<le> 10 \<Longrightarrow> length (enemies (simulate f g)) \<le> 10"
  using before_spawn_count [of f g] by (simp add: simulate_def spawn_enemy_def)

lemma main_loop_count:
  "length (enemies g) \<le> 10 \<Longrightarrow> length (enemies (main_loop fs g)) \<le> 10"
proof (induction fs arbitrary: g)
  case Nil
  then show ?case by simp
next
  case (Cons f fs)
  have "length (enemies (loop_body f g)) \<le> 10"
    using simulate_count [of "poll_events (events f) g" f] Cons.prems
    by (simp add: loop_body_def game_over_frame poll_events_frame)
  then show ?case using Cons.IH [of "loop_body f g"] Cons.prems by simp
qed

lemma timer_stays_above:
  assumes "is_float (timeSinceLastSpawn g)" "3 < timeSinceLastSpawn g" "clock g \<le> clock_now f"
  shows "3 < timeSinceLastSpawn (before_spawn f g)"
  unfolding before_spawn_timer
  using assms by (intro fadd_above_3 asSeconds_nonneg) simp_all

lemma enemy_step_no_bullets:
  "bullets g = [] \<Longrightarrow> bullets (enemy_step e g) = []
     \<and> length (enemies (enemy_step e g)) = length (enemies g) + 1"
  by (simp add: enemy_step_def Let_def)

lemma enemy_loop_no_bullets:
  "bullets g = [] \<Longrightarrow> length (enemies (enemy_loop es g)) = length (enemies g) + length es"
proof (induction es arbitrary: g)
  case Nil
  show ?case by simp
next
  case (Cons e es)
  show ?case using Cons.IH [of "enemy_step e g"] enemy_step_no_bullets [OF Cons.prems, of e]
    by simp
qed

lemma before_spawn_no_bullets:
  "bullets g = [] \<Longrightarrow> length (enemies (before_spawn f g)) = length (enemies g)"
  using enemy_loop_no_bullets [of "(move_player f (advance_clock f g))\<lparr>bullets := [], enemies := []\<rparr>"
      "enemies g"]
  by (simp add: before_spawn_def Let_def update_zone_frame update_enemies_def move_player_def
      advance_clock_def)

subsection \<open>The shrinking radius\<close>

lemma SAFE_ZONE_SHRINK_RATE_eval: "SAFE_ZONE_SHRINK_RATE = 13421773 / 134217728"
  unfolding SAFE_ZONE_SHRINK_RATE_def f32_def
  using rnd_binade [of "-4" "1/10" 24]
  by (simp add: power_int_minus rne_numeral_div rne_div_def Let_def)

lemma SafeZone_ctor_eval:
  "SafeZone_ctor = \<lparr>shrinkRate = 13421773 / 134217728, minRadius = 50, radius = 350\<rparr>"
proof -
  have h: "rnd 24 (1 / 2) = 1 / 2" using rnd_dyadic [of 1 24 1] by simp
  show ?thesis
    by (simp add: SafeZone_ctor_def SAFE_ZONE_SHRINK_RATE_eval WINDOW_WIDTH_def WINDOW_HEIGHT_def
        f32_numeral i2f_exact fmul_def)
      (simp add: f32_def h rnd_numeral)
qed

lemma rne_div_shift:
  assumes "0 \<le> c" "c < b"
  shows "rne_div (c + q * b) b
     = (if 2 * c < b then q else if b < 2 * c then q + 1 else if even q then q else q + 1)"
proof -
  have "(c + q * b) div b = q" "(c + q * b) mod b = c" using assms by simp_all
  then show ?thesis by (simp only: rne_div_def Let_def)
qed

lemma rnd24_in_binade:
  assumes "2 powi e \<le> y" "y < 2 powi (e + 1)" "y / 2 powi (e - 23) = of_int a / of_int b" "0 < b"
  shows "rnd 24 y = of_int (rne_div a b) * 2 powi (e - 23)"
proof -
  have "0 < (2::rat) powi e" by simp
  then have "0 < y" using assms(1) by linarith
  then have "2 powi e \<le> \<bar>y\<bar>" "\<bar>y\<bar> < 2 powi (e + 1)" using assms(1,2) by simp_all
  from rnd_binade [OF this, of 24] show ?thesis
    by (simp add: assms(3) rne_of_int_div [OF assms(4)])
qed

lemma fsub_step_upper:
  assumes "r = of_int k / 32768" "128 + 3277 / 32768 \<le> r" "r < 512"
  shows "fsub r (13421773 / 134217728) = r - 3277 / 32768"
proof -
  define y :: rat where "y = r - 13421773 / 134217728"
  have y: "y = of_int (4096 * k - 13421773) / 134217728" by (simp add: y_def assms(1))
  have lo: "128 \<le> y" and hi: "y < 512" using assms(2,3) by (simp_all add: y_def)
  show ?thesis
  proof (cases "256 \<le> y")
    case True
    have q: "y / 2 powi (8 - 23) = of_int (819 + (k - 3277) * 4096) / of_int 4096"
      by (simp add: y power_int_minus)
    have "rnd 24 y = of_int (rne_div (819 + (k - 3277) * 4096) 4096) * 2 powi (8 - 23)"
      using True hi by (intro rnd24_in_binade q) simp_all
    also have "rne_div (819 + (k - 3277) * 4096) 4096 = k - 3277"
      using rne_div_shift [of 819 4096 "k - 3277"] by simp
    finally show ?thesis unfolding fsub_def y_def [symmetric]
      by (simp add: power_int_minus) (simp add: y_def assms(1))
  next
    case False
    have q: "y / 2 powi (7 - 23) = of_int (819 + (2 * k - 6554) * 2048) / of_int 2048"
      by (simp add: y power_int_minus)
    have "rnd 24 y = of_int (rne_div (819 + (2 * k - 6554) * 2048) 2048) * 2 powi (7 - 23)"
      using False lo by (intro rnd24_in_binade q) simp_all
    also have "rne_div (819 + (2 * k - 6554) * 2048) 2048 = 2 * k - 6554"
      using rne_div_shift [of 819 2048 "2 * k - 6554"] by simp
    finally show ?thesis unfolding fsub_def y_def [symmetric]
      by (simp add: power_int_minus) (simp add: y_def assms(1))
  qed
qed

lemma fsub_step_lower:
  assumes "r = of_int k / 131072" "33 \<le> r" "r < 128 + 13107 / 131072"
  shows "fsub r (13421773 / 134217728) = r - 13107 / 131072"
proof -
  define y :: rat where "y = r - 13421773 / 134217728"
  have y: "y = of_int (1024 * k - 13421773) / 134217728" by (simp add: y_def assms(1))
  have lo: "32 \<le> y" and hi: "y < 128" using assms(2,3) by (simp_all add: y_def)
  show ?thesis
  proof (cases "64 \<le> y")
    case True
    have q: "y / 2 powi (6 - 23) = of_int (819 + (k - 13108) * 1024) / of_int 1024"
      by (simp add: y power_int_minus)
    have "rnd 24 y = of_int (rne_div (819 + (k - 13108) * 1024) 1024) * 2 powi (6 - 23)"
      using True hi by (intro rnd24_in_binade q) simp_all
    also have "rne_div (819 + (k - 13108) * 1024) 1024 = k - 13107"
      using rne_div_shift [of 819 1024 "k - 13108"] by simp
    finally show ?thesis unfolding fsub_def y_def [symmetric]
      by (simp add: power_int_minus) (simp add: y_def assms(1))
  next
    case False
    have q: "y / 2 powi (5 - 23) = of_int (307 + (2 * k - 26215) * 512) / of_int 512"
      by (simp add: y power_int_minus)
    have "rnd 24 y = of_int (rne_div (307 + (2 * k - 26215) * 512) 512) * 2 powi (5 - 23)"
      using False lo by (intro rnd24_in_binade q) simp_all
    also have "rne_div (307 + (2 * k - 26215) * 512) 512 = 2 * k - 26214"
      using rne_div_shift [of 307 512 "2 * k - 26215"] by simp
    finally show ?thesis unfolding fsub_def y_def [symmetric]
      by (simp add: power_int_minus) (simp add: y_def assms(1))
  qed
qed

lemma SafeZone_update_upper:
  assumes "n \<le> 2218"
  shows "SafeZone_update \<lparr>shrinkRate = 13421773 / 134217728, minRadius = 50,
                           radius = 350 - of_nat n * (3277 / 32768)\<rparr>
       = \<lparr>shrinkRate = 13421773 / 134217728, minRadius = 50,
          radius = 350 - of_nat (Suc n) * (3277 / 32768)\<rparr>"
proof -
  define r :: rat where "r = 350 - of_nat n * (3277 / 32768)"
  have n: "(of_nat n :: rat) \<le> 2218" using assms by (metis of_nat_le_iff of_nat_numeral)
  have k: "r = of_int (11468800 - 3277 * int n) / 32768" by (simp add: r_def field_simps)
  have b: "128 + 3277 / 32768 \<le> r" "r < 512" "50 < r" using n by (simp_all add: r_def)
  have "fsub r (13421773 / 134217728) = r - 3277 / 32768"
    using k b(1,2) by (rule fsub_step_upper)
  then show ?thesis using b(3)
    by (simp add: SafeZone_update_def r_def [symmetric]) (simp add: r_def field_simps)
qed

lemma SafeZone_update_lower:
  assumes "n \<le> 780"
  shows "SafeZone_update \<lparr>shrinkRate = 13421773 / 134217728, minRadius = 50,
                           radius = 4197137 / 32768 - of_nat n * (13107 / 131072)\<rparr>
       = \<lparr>shrinkRate = 13421773 / 134217728, minRadius = 50,
          radius = 4197137 / 32768 - of_nat (Suc n) * (13107 / 131072)\<rparr>"
proof -
  define r :: rat where "r = 4197137 / 32768 - of_nat n * (13107 / 131072)"
  have n: "(of_nat n :: rat) \<le> 780" using assms by (metis of_nat_le_iff of_nat_numeral)
  have n0: "(0::rat) \<le> of_nat n" by simp
  have k: "r = of_int (16788548 - 13107 * int n) / 131072" by (simp add: r_def field_simps)
  have b: "33 \<le> r" "r < 128 + 13107 / 131072" "50 < r" using n n0 by (simp_all add: r_def)
  have "fsub r (13421773 / 134217728) = r - 13107 / 131072"
    using k b(1,2) by (rule fsub_step_lower)
  then show ?thesis using b(3)
    by (simp add: SafeZone_update_def r_def [symmetric]) (simp add: r_def field_simps)
qed

lemma zone_upper_phase:
  "n \<le> 2219 \<Longrightarrow> (SafeZone_update ^^ n) SafeZone_ctor
     = \<lparr>shrinkRate = 13421773 / 134217728, minRadius = 50,
        radius = 350 - of_nat n * (3277 / 32768)\<rparr>"
proof (induction n)
  case 0
  show ?case by (simp add: SafeZone_ctor_eval)
next
  case (Suc n)
  then have n: "n \<le> 2218" and "n \<le> 2219" by simp_all
  then have "(SafeZone_update ^^ Suc n) SafeZone_ctor
      = SafeZone_update \<lparr>shrinkRate = 13421773 / 134217728, minRadius = 50,
                           radius = 350 - of_nat n * (3277 / 32768)\<rparr>"
    by (simp only: funpow.simps o_apply Suc.IH)
  also have "\<dots> = \<lparr>shrinkRate = 13421773 / 134217728, minRadius = 50,
          radius = 350 - of_nat (Suc n) * (3277 / 32768)\<rparr>"
    using n by (rule SafeZone_update_upper)
  finally show ?case .
qed

lemma zone_lower_phase:
  "n \<le> 781 \<Longrightarrow> (SafeZone_update ^^ n)
       \<lparr>shrinkRate = 13421773 / 134217728, minRadius = 50, radius = 4197137 / 32768\<rparr>
     = \<lparr>shrinkRate = 13421773 / 134217728, minRadius = 50,
        radius = 4197137 / 32768 - of_nat n * (13107 / 131072)\<rparr>"
proof (induction n)
  case 0
  show ?case by simp
next
  case (Suc n)
  then have n: "n \<le> 780" and "n \<le> 781" by simp_all
  then have "(SafeZone_update ^^ Suc n)
        \<lparr>shrinkRate = 13421773 / 134217728, minRadius = 50, radius = 4197137 / 32768\<rparr>
      = SafeZone_update \<lparr>shrinkRate = 13421773 / 134217728, minRadius = 50,
                           radius = 4197137 / 32768 - of_nat n * (13107 / 131072)\<rparr>"
    by (simp only: funpow.simps o_apply Suc.IH)
  also have "\<dots> = \<lparr>shrinkRate = 13421773 / 134217728, minRadius = 50,
          radius = 4197137 / 32768 - of_nat (Suc n) * (13107 / 131072)\<rparr>"
    using n by (rule SafeZone_update_lower)
  finally show ?case .
qed

lemma zone_held: "radius z \<le> minRadius z \<Longrightarrow> (SafeZone_update ^^ n) z = z"
  by (induction n) (simp_all add: SafeZone_update_def)

lemma zone_after_2219:
  "(SafeZone_update ^^ 2219) SafeZone_ctor
     = \<lparr>shrinkRate = 13421773 / 134217728, minRadius = 50, radius = 4197137 / 32768\<rparr>"
  using zone_upper_phase [of 2219] by simp

lemma zone_after_2999:
  "(SafeZone_update ^^ 2999) SafeZone_ctor
     = \<lparr>shrinkRate = 13421773 / 134217728, minRadius = 50, radius = 205159 / 4096\<rparr>"
proof -
  have "(SafeZone_update ^^ (780 + 2219)) SafeZone_ctor
      = (SafeZone_update ^^ 780) ((SafeZone_update ^^ 2219) SafeZone_ctor)"
    by (simp only: funpow_add o_apply)
  then show ?thesis using zone_lower_phase [of 780] by (simp add: zone_after_2219)
qed

lemma zone_after_3000:
  "(SafeZone_update ^^ 3000) SafeZone_ctor
     = \<lparr>shrinkRate = 13421773 / 134217728, minRadius = 50, radius = 6551981 / 131072\<rparr>"
proof -
  have "(SafeZone_update ^^ (781 + 2219)) SafeZone_ctor
      = (SafeZone_update ^^ 781) ((SafeZone_update ^^ 2219) SafeZone_ctor)"
    by (simp only: funpow_add o_apply)
  then show ?thesis using zone_lower_phase [of 781] by (simp add: zone_after_2219)
qed

lemma zone_after_3000_plus:
  "(SafeZone_update ^^ (3000 + n)) SafeZone_ctor
     = \<lparr>shrinkRate = 13421773 / 134217728, minRadius = 50, radius = 6551981 / 131072\<rparr>"
proof -
  have "(SafeZone_update ^^ (n + 3000)) SafeZone_ctor
      = (SafeZone_update ^^ n) ((SafeZone_update ^^ 3000) SafeZone_ctor)"
    by (simp only: funpow_add o_apply)
  then show ?thesis by (simp add: zone_after_3000 zone_held add.commute)
qed

lemma loop_body_safeZone: "safeZone (loop_body f g) = SafeZone_update (safeZone g)"
  by (simp add: loop_body_def game_over_frame simulate_def spawn_enemy_frame before_spawn_def
      Let_def update_zone_def update_enemies_frame move_player_def advance_clock_def
      poll_events_frame)

subsection \<open>Operations that are exact on small integers\<close>

lemma fadd_int: "\<bar>a + b\<bar> < 2 ^ 24 \<Longrightarrow> fadd (of_int a) (of_int b) = of_int (a + b)"
  using rnd_of_int [of "a + b" 24] by (simp add: fadd_def)

lemma fsub_int: "\<bar>a - b\<bar> < 2 ^ 24 \<Longrightarrow> fsub (of_int a) (of_int b) = of_int (a - b)"
  using rnd_of_int [of "a - b" 24] by (simp add: fsub_def)

lemma fmul_int: "\<bar>a * b\<bar> < 2 ^ 24 \<Longrightarrow> fmul (of_int a) (of_int b) = of_int (a * b)"
  using rnd_of_int [of "a * b" 24] by (simp add: fmul_def)

lemma square_bound:
  fixes d :: int
  assumes "\<bar>d\<bar> < c" shows "d * d < c * c" "\<bar>d * d\<bar> < c * c"
proof -
  have "\<bar>d\<bar> * \<bar>d\<bar> < c * c" using assms by (intro mult_strict_mono) simp_all
  then show "d * d < c * c" "\<bar>d * d\<bar> < c * c" by (simp_all add: abs_mult)
qed

lemma sqrt_of_square:
  fixes d :: int
  assumes "d * d < 2 ^ p" "0 < p"
  shows "rnd_sqrt p (of_int (d * d)) = of_int \<bar>d\<bar>"
proof (cases "d = 0")
  case True
  then show ?thesis by simp
next
  case False
  then have "0 < \<bar>d\<bar>" by simp
  moreover have "\<bar>d\<bar> * \<bar>d\<bar> < 2 ^ p" using assms(1) by (simp add: abs_mult [symmetric])
  ultimately have "rnd_sqrt p (of_int (\<bar>d\<bar> * \<bar>d\<bar>)) = of_int \<bar>d\<bar>"
    using assms(2) by (rule rnd_sqrt_square)
  then show ?thesis by (simp add: abs_mult [symmetric])
qed

lemma vec_length_vertical:
  assumes "\<bar>d\<bar> < 4096"
  shows "vec_length \<lparr>vx = 0, vy = of_int d\<rparr> = of_int \<bar>d\<bar>"
proof -
  from square_bound [OF assms] have b: "d * d < 2 ^ 24" "\<bar>d * d\<bar> < 2 ^ 24" by simp_all
  have "fmul (of_int d) (of_int d) = of_int (d * d)" using b(2) by (rule fmul_int)
  moreover have "fadd 0 (of_int (d * d)) = of_int (d * d)"
    using fadd_int [of 0 "d * d"] b(2) by simp
  moreover have "fsqrt (of_int (d * d)) = of_int \<bar>d\<bar>"
    unfolding fsqrt_def using b(1) by (intro sqrt_of_square) simp_all
  ultimately show ?thesis by (simp add: vec_length_def fmul_def)
qed

lemma Enemy_update_below:
  assumes "position e = \<lparr>vx = x, vy = of_int ey\<rparr>" "speed e = 1" "py < ey" "ey - py < 4096"
  shows "Enemy_update \<lparr>vx = x, vy = of_int py\<rparr> e = e\<lparr>velocity := \<lparr>vx = 0, vy = - 1\<rparr>\<rparr>"
proof -
  have d: "fsub (of_int py) (of_int ey) = of_int (py - ey)"
    using assms(3,4) by (intro fsub_int) simp
  have l: "vec_length \<lparr>vx = 0, vy = of_int (py - ey)\<rparr> = of_int (ey - py)"
    using vec_length_vertical [of "py - ey"] assms(3,4) by simp
  have pos: "(0::rat) < of_int (ey - py)" using assms(3) by simp
  have q: "fdiv (of_int (py - ey)) (of_int (ey - py)) = - 1"
  proof -
    have "(of_int (py - ey) :: rat) / of_int (ey - py) = - 1"
      using assms(3) by (simp add: field_simps)
    then show ?thesis using rnd_of_int [of "- 1" 24] by (simp add: fdiv_def)
  qed
  have m: "fmul (- 1) 1 = - 1" using rnd_of_int [of "- 1" 24] by (simp add: fmul_def)
  have z: "fdiv 0 (of_int (ey - py)) = 0" "fmul 0 1 = 0" by (simp_all add: fdiv_def fmul_def)
  show ?thesis
    using pos by (simp add: Enemy_update_def Let_def vec_sub_def assms(1,2) d l vec_div_def
        vec_mul_def q m z del: of_int_diff)
qed

lemma touches_vertical:
  assumes "position p = \<lparr>vx = x, vy = of_int py\<rparr>" "position e = \<lparr>vx = x, vy = of_int ey\<rparr>"
    "\<bar>py - ey\<bar> < 4096"
  shows "touches p e = (\<bar>py - ey\<bar> < 20)"
proof -
  have d: "fsub (of_int py) (of_int ey) = of_int (py - ey)"
    using assms(3) by (intro fsub_int) simp
  have "fsqrt (fadd (fmul 0 0) (fmul (of_int (py - ey)) (of_int (py - ey)))) = of_int \<bar>py - ey\<bar>"
    using vec_length_vertical [OF assms(3)] by (simp add: vec_length_def)
  moreover have "((of_int \<bar>py - ey\<bar> :: rat) < of_int 20) = (\<bar>py - ey\<bar> < 20)"
    by (simp only: of_int_less_iff)
  ultimately show ?thesis
    by (simp add: touches_def Let_def assms(1,2) d i2f_exact del: of_int_diff of_int_abs)
qed

lemma SafeZone_isInside_vertical:
  assumes "\<bar>py - 350\<bar> < 4096"
  shows "SafeZone_isInside z \<lparr>vx = 600, vy = of_int py\<rparr> = (of_int \<bar>py - 350\<bar> < radius z)"
proof -
  define d where "d = py - 350"
  from square_bound [of d 4096] assms have b: "d * d < 2 ^ 24" "\<bar>d * d\<bar> < 2 ^ 24"
    by (simp_all add: d_def)
  have b53: "d * d < 2 ^ 53" "\<bar>d * d\<bar> < 2 ^ 53" using b by simp_all
  have dy: "fsub (of_int py) 350 = of_int d"
    using fsub_int [of py 350] assms by (simp add: d_def)
  have m: "dmul (of_int d) (of_int d) = of_int (d * d)"
    using rnd_of_int [of "d * d" 53] b53(2) by (simp add: dmul_def)
  have a: "dadd 0 (of_int (d * d)) = of_int (d * d)"
    using rnd_of_int [of "d * d" 53] b53(2) by (simp add: dadd_def)
  have s: "dsqrt (of_int (d * d)) = of_int \<bar>d\<bar>"
    unfolding dsqrt_def using b53(1) by (intro sqrt_of_square) simp_all
  have f: "d2f (of_int \<bar>d\<bar>) = of_int \<bar>d\<bar>"
    unfolding d2f_def using assms by (intro rnd_of_int) (simp add: d_def)
  have z: "dmul 0 0 = 0" by (simp add: dmul_def)
  show ?thesis
    by (simp add: SafeZone_isInside_def Let_def WINDOW_WIDTH_def WINDOW_HEIGHT_def i2f_exact
        dy m a s f z del: of_int_diff of_int_mult of_int_abs)
      (simp add: d_def)
qed

lemma rnd_Ints: assumes "x \<in> \<int>" "\<bar>x\<bar> < 2 ^ p" shows "rnd p x = x"
proof -
  from assms(1) obtain k where k: "x = of_int k" by (rule Ints_cases)
  have "\<bar>k\<bar> < 2 ^ p" using assms(2) unfolding k
    by (metis of_int_abs of_int_less_numeral_power_cancel_iff)
  then show ?thesis unfolding k by (rule rnd_of_int)
qed

lemma rnd_scaled_Ints:
  assumes "x * 2 ^ n \<in> \<int>" "\<bar>x * 2 ^ n\<bar> < 2 ^ p" shows "rnd p x = x"
proof -
  from assms(1) obtain k where k: "x * 2 ^ n = of_int k" by (rule Ints_cases)
  have "\<bar>k\<bar> < 2 ^ p" using assms(2) unfolding k
    by (metis of_int_abs of_int_less_numeral_power_cancel_iff)
  then have "rnd p (of_int k / 2 ^ n) = of_int k / 2 ^ n" by (rule rnd_dyadic)
  moreover have "x = of_int k / 2 ^ n" using k by (simp add: field_simps)
  ultimately show ?thesis by simp
qed

lemma fadd_exact: "a + b \<in> \<int> \<Longrightarrow> \<bar>a + b\<bar> < 2 ^ 24 \<Longrightarrow> fadd a b = a + b"
  by (simp add: fadd_def rnd_Ints)

lemma fsub_exact: "a - b \<in> \<int> \<Longrightarrow> \<bar>a - b\<bar> < 2 ^ 24 \<Longrightarrow> fsub a b = a - b"
  by (simp add: fsub_def rnd_Ints)

lemma vec_length_vertical_Ints:
  assumes "d \<in> \<int>" "\<bar>d\<bar> < 4096"
  shows "vec_length \<lparr>vx = 0, vy = d\<rparr> = \<bar>d\<bar>"
proof -
  from assms(1) obtain k where k: "d = of_int k" by (rule Ints_cases)
  have "(of_int \<bar>k\<bar> :: rat) < of_int 4096" using assms(2) unfolding k by simp
  then have "\<bar>k\<bar> < 4096" by (simp only: of_int_less_iff)
  then show ?thesis unfolding k by (simp add: vec_length_vertical)
qed

lemma Enemy_update_below_Ints:
  assumes "position e = \<lparr>vx = x, vy = ey\<rparr>" "speed e = 1" "py \<in> \<int>" "ey \<in> \<int>"
    "py < ey" "ey - py < 4096"
  shows "Enemy_update \<lparr>vx = x, vy = py\<rparr> e = e\<lparr>velocity := \<lparr>vx = 0, vy = - 1\<rparr>\<rparr>"
proof -
  from assms(3) obtain a where a: "py = of_int a" by (rule Ints_cases)
  from assms(4) obtain b where b: "ey = of_int b" by (rule Ints_cases)
  have "(of_int a :: rat) < of_int b" using assms(5) by (simp add: a b)
  then have 1: "a < b" by (simp only: of_int_less_iff)
  have "(of_int (b - a) :: rat) < of_int 4096" using assms(6) by (simp add: a b)
  then have 2: "b - a < 4096" by (simp only: of_int_less_iff)
  show ?thesis unfolding a
    using assms(1) [unfolded b] assms(2) 1 2 by (rule Enemy_update_below)
qed

lemma touches_vertical_Ints:
  assumes "position p = \<lparr>vx = x, vy = py\<rparr>" "position e = \<lparr>vx = x, vy = ey\<rparr>"
    "py \<in> \<int>" "ey \<in> \<int>" "\<bar>py - ey\<bar> < 4096"
  shows "touches p e = (\<bar>py - ey\<bar> < 20)"
proof -
  from assms(3) obtain a where a: "py = of_int a" by (rule Ints_cases)
  from assms(4) obtain b where b: "ey = of_int b" by (rule Ints_cases)
  have "(of_int \<bar>a - b\<bar> :: rat) < of_int 4096" using assms(5) by (simp add: a b)
  then have 1: "\<bar>a - b\<bar> < 4096" by (simp only: of_int_less_iff)
  have "((of_int \<bar>a - b\<bar> :: rat) < of_int 20) = (\<bar>a - b\<bar> < 20)" by (simp only: of_int_less_iff)
  then have 2: "(\<bar>py - ey\<bar> < 20) = (\<bar>a - b\<bar> < 20)" by (simp add: a b)
  show ?thesis unfolding 2
    using assms(1) [unfolded a] assms(2) [unfolded b] 1 by (rule touches_vertical)
qed

lemma SafeZone_isInside_vertical_Ints:
  assumes "py \<in> \<int>" "\<bar>py - 350\<bar> < 4096"
  shows "SafeZone_isInside z \<lparr>vx = 600, vy = py\<rparr> = (\<bar>py - 350\<bar> < radius z)"
proof -
  from assms(1) obtain a where a: "py = of_int a" by (rule Ints_cases)
  have "(of_int \<bar>a - 350\<bar> :: rat) < of_int 4096" using assms(2) by (simp add: a)
  then have 1: "\<bar>a - 350\<bar> < 4096" by (simp only: of_int_less_iff)
  show ?thesis unfolding a using SafeZone_isInside_vertical [OF 1, of z] by simp
qed

section \<open>A walk out of the window\<close>

text \<open>
  The session of \<open>walk_frame\<close>, frame by frame: the state after \<open>n\<close> frames is
  \<open>walk_state n\<close>, for every \<open>n\<close> up to 120.
\<close>

lemma asSeconds_15625: "asSeconds 15625 = 1 / 64"
proof -
  have "rnd 24 (15625 / 1000000) = 1 / 64" using rnd_dyadic [of 1 24 6] by simp
  then show ?thesis by (simp add: asSeconds_def fdiv_def f32_numeral i2f_exact)
qed

lemma walk_initial: "initial 0 0 (\<lambda>i. (600, 699, 0)) = walk_state 0"
proof -
  have s: "spawn 600 699 0 = \<lparr>position = \<lparr>vx = 600, vy = 699\<rparr>, velocity = \<lparr>vx = 0, vy = 0\<rparr>,
                        speed = 1, health = 50\<rparr>"
    by (simp add: spawn_def Enemy_ctor_def Entity_ctor_def float_consts float_eval)
  have m: "map (\<lambda>i. x) [0..<5] = replicate 5 x" for x :: Entity
    by (simp add: map_replicate_const)
  show ?thesis
    by (simp add: initial_def walk_state_def Player_ctor_eval SafeZone_ctor_eval s m)
qed

lemma walk_clock:
  assumes "n < 120"
  shows "advance_clock (walk_frame n) (walk_state n)
     = (walk_state n)\<lparr>clock := 15625 * (int n + 1), timeSinceLastSpawn := of_nat (Suc n) / 64\<rparr>"
proof -
  have n: "(of_nat n :: rat) < 120" using assms by (metis of_nat_less_iff of_nat_numeral)
  have e: "(of_nat n / 64 + 1 / 64) * 2 ^ 6 = (of_nat (Suc n) :: rat)" by simp
  have "fadd (of_nat n / 64) (1 / 64) = of_nat n / 64 + 1 / 64"
    unfolding fadd_def using n by (intro rnd_scaled_Ints [of _ 6]) (simp_all only: e, simp_all)
  then show ?thesis
    by (simp add: advance_clock_def walk_frame_def walk_state_def Let_def asSeconds_15625
        algebra_simps)
qed


lemma walk_player:
  assumes "n < 120"
  shows "Entity_move (Player_handleInput True False False False (player (walk_state n)))
     = \<lparr>position = \<lparr>vx = 600, vy = 350 - 3 * of_nat (Suc n)\<rparr>,
        velocity = \<lparr>vx = 0, vy = - 3\<rparr>, speed = 3, health = 100 - int (n - 112)\<rparr>"
proof -
  have n: "(of_nat n :: rat) < 120" using assms by (metis of_nat_less_iff of_nat_numeral)
  have n0: "(0 :: rat) \<le> of_nat n" by simp
  have v: "fsub 0 3 = - 3" by (intro fsub_exact [of 0 3, simplified]) 
  have x: "fadd 600 0 = 600" by (simp add: fadd_def rnd_numeral)
  have y: "fadd (350 - 3 * of_nat n) (- 3) = 350 - 3 * of_nat n + - 3"
    using n n0 by (intro fadd_exact) simp_all
  show ?thesis
    by (simp add: walk_state_def Player_handleInput_def Entity_move_def vec_add_def v x y)
qed

lemma enemy_step_chase:
  assumes "bullets g = []" "position (player g) = \<lparr>vx = x, vy = py\<rparr>"
    "position e = \<lparr>vx = x, vy = ey\<rparr>" "speed e = 1" "py \<in> \<int>" "ey \<in> \<int>"
    "py + 21 \<le> ey" "ey - py < 4096" "is_float x" "\<bar>ey - 1\<bar> < 2 ^ 24"
  shows "enemy_step e g
     = g\<lparr>enemies := enemies g @ [e\<lparr>velocity := \<lparr>vx = 0, vy = - 1\<rparr>,
                                     position := \<lparr>vx = x, vy = ey - 1\<rparr>\<rparr>]\<rparr>"
proof -
  define e1 where "e1 = e\<lparr>velocity := \<lparr>vx = 0, vy = - 1\<rparr>, position := \<lparr>vx = x, vy = ey - 1\<rparr>\<rparr>"
  have u: "Enemy_update \<lparr>vx = x, vy = py\<rparr> e = e\<lparr>velocity := \<lparr>vx = 0, vy = - 1\<rparr>\<rparr>"
    using assms(3,4,5,6) by (rule Enemy_update_below_Ints) (use assms(7,8) in simp_all)
  have ax: "fadd x 0 = x" using assms(9) by (simp add: fadd_def is_float_def)
  have ay: "fadd ey (- 1) = ey + - 1"
    using assms(6,10) by (intro fadd_exact) simp_all
  have m: "Entity_move (Enemy_update (position (player g)) e) = e1"
    by (simp add: assms(2) u Entity_move_def assms(3) vec_add_def ax ay e1_def)
  have "touches (player g) e1 = (\<bar>py - (ey - 1)\<bar> < 20)"
    using assms(2) by (rule touches_vertical_Ints)
      (use assms(5,6,7,8) in \<open>simp_all add: e1_def\<close>)
  then have t: "\<not> touches (player g) e1" using assms(7) by simp
  have g: "g\<lparr>bullets := []\<rparr> = g" using assms(1) by (cases g) simp
  show ?thesis
    by (simp add: enemy_step_def Let_def m assms(1) t g) (simp add: e1_def)
qed

lemma enemy_loop_chase:
  assumes "bullets g = []" "position (player g) = \<lparr>vx = x, vy = py\<rparr>"
    "position e = \<lparr>vx = x, vy = ey\<rparr>" "speed e = 1" "py \<in> \<int>" "ey \<in> \<int>"
    "py + 21 \<le> ey" "ey - py < 4096" "is_float x" "\<bar>ey - 1\<bar> < 2 ^ 24"
  shows "enemy_loop (replicate k e) g
     = g\<lparr>enemies := enemies g @ replicate k (e\<lparr>velocity := \<lparr>vx = 0, vy = - 1\<rparr>,
                                                 position := \<lparr>vx = x, vy = ey - 1\<rparr>\<rparr>)\<rparr>"
  using assms(1,2)
proof (induction k arbitrary: g)
  case 0
  show ?case by simp
next
  case (Suc k)
  define e1 where "e1 = e\<lparr>velocity := \<lparr>vx = 0, vy = - 1\<rparr>, position := \<lparr>vx = x, vy = ey - 1\<rparr>\<rparr>"
  have s: "enemy_step e g = g\<lparr>enemies := enemies g @ [e1]\<rparr>"
    unfolding e1_def using Suc.prems assms(3-10) by (rule enemy_step_chase)
  have "enemy_loop (replicate k e) (g\<lparr>enemies := enemies g @ [e1]\<rparr>)
      = (g\<lparr>enemies := enemies g @ [e1]\<rparr>)
          \<lparr>enemies := enemies (g\<lparr>enemies := enemies g @ [e1]\<rparr>) @ replicate k e1\<rparr>"
    unfolding e1_def using Suc.prems by (intro Suc.IH) simp_all
  then show ?case
    by (simp add: s e1_def [symmetric] replicate_append_same)
qed

lemma walk_step:
  assumes "n < 120"
  shows "loop_body (walk_frame n) (walk_state n) = walk_state (Suc n)"
proof -
  have n: "(of_nat n :: rat) < 120" using assms by (metis of_nat_less_iff of_nat_numeral)
  have n0: "(0 :: rat) \<le> of_nat n" by simp
  define P where "P = \<lparr>position = \<lparr>vx = 600, vy = 350 - 3 * of_nat (Suc n)\<rparr>,
        velocity = \<lparr>vx = 0, vy = - 3\<rparr>, speed = 3, health = 100 - int (n - 112)\<rparr>"
  define E where "E = \<lparr>position = \<lparr>vx = 600, vy = 699 - of_nat n\<rparr>,
                             velocity = \<lparr>vx = 0, vy = (if n = 0 then 0 else - 1)\<rparr>,
                             speed = 1, health = 50 :: int\<rparr>"
  define E' where "E' = \<lparr>position = \<lparr>vx = 600, vy = 699 - of_nat (Suc n)\<rparr>,
                             velocity = \<lparr>vx = 0, vy = - 1\<rparr>, speed = 1, health = 50 :: int\<rparr>"
  define Z where "Z = \<lparr>shrinkRate = 13421773 / 134217728, minRadius = 50,
                 radius = 350 - of_nat n * (3277 / 32768)\<rparr>"
  define Z' where "Z' = \<lparr>shrinkRate = 13421773 / 134217728, minRadius = 50,
                 radius = 350 - of_nat (Suc n) * (3277 / 32768)\<rparr>"
  define g3 where "g3 = \<lparr>player = P, enemies = replicate 5 E, bullets = [], safeZone = Z,
     clock = 15625 * (int n + 1), bulletClock = 0, timeSinceLastSpawn = of_nat (Suc n) / 64,
     score = 0, killCount = 0, window_isOpen = True, effects = []\<rparr>"
  have s3: "(move_player (walk_frame n) (advance_clock (walk_frame n) (walk_state n)))
      \<lparr>bullets := update_bullets (bullets (move_player (walk_frame n)
          (advance_clock (walk_frame n) (walk_state n))))\<rparr> = g3"
  proof -
    have "player ((walk_state n)\<lparr>clock := 15625 * (int n + 1),
        timeSinceLastSpawn := of_nat (Suc n) / 64\<rparr>) = player (walk_state n)" by simp
    then show ?thesis
      unfolding walk_clock [OF assms] move_player_def
      by (simp add: walk_frame_def walk_player [OF assms])
        (simp add: walk_state_def g3_def E_def Z_def P_def)
  qed
  have s4: "update_enemies g3 = g3\<lparr>enemies := replicate 5 E'\<rparr>"
  proof -
    have "enemy_loop (replicate 5 E) (g3\<lparr>enemies := []\<rparr>)
        = (g3\<lparr>enemies := []\<rparr>)\<lparr>enemies := enemies (g3\<lparr>enemies := []\<rparr>)
            @ replicate 5 (E\<lparr>velocity := \<lparr>vx = 0, vy = - 1\<rparr>,
                             position := \<lparr>vx = 600, vy = 699 - of_nat n - 1\<rparr>\<rparr>)\<rparr>"
      using n n0
      by (intro enemy_loop_chase [where py = "350 - 3 * of_nat (Suc n)"])
        (simp_all add: g3_def P_def E_def is_float_def rnd_numeral)
    then show ?thesis
      by (simp add: update_enemies_def) (simp add: g3_def E_def E'_def)
  qed
  have z: "SafeZone_update Z = Z'"
    unfolding Z_def Z'_def using assms by (intro SafeZone_update_upper) simp
  have ins: "SafeZone_isInside Z' \<lparr>vx = 600, vy = 350 - 3 * of_nat (Suc n)\<rparr> = (n < 112)"
  proof -
    define m :: rat where "m = of_nat (Suc n)"
    have m0: "0 \<le> m" by (simp add: m_def)
    have r: "radius Z' = 350 - m * (3277 / 32768)" by (simp add: Z'_def m_def)
    have a: "\<bar>350 - 3 * m - 350\<bar> = 3 * m" using m0 by simp
    have "SafeZone_isInside Z' \<lparr>vx = 600, vy = 350 - 3 * of_nat (Suc n)\<rparr>
        = (\<bar>350 - 3 * of_nat (Suc n) - 350\<bar> < radius Z')"
      using n n0 by (intro SafeZone_isInside_vertical_Ints) simp_all
    also have "\<dots> = (3 * m < 350 - m * (3277 / 32768))"
      unfolding m_def [symmetric] by (simp only: a r)
    also have "\<dots> = (n < 112)"
    proof (cases "n < 112")
      case True
      then have "Suc n \<le> 112" by simp
      then have "m \<le> 112" unfolding m_def by (metis of_nat_le_iff of_nat_numeral)
      then have "3 * m < 350 - m * (3277 / 32768)" by linarith
      then show ?thesis using True by simp
    next
      case False
      then have "113 \<le> Suc n" by simp
      then have "113 \<le> m" unfolding m_def by (metis of_nat_le_iff of_nat_numeral)
      then have "\<not> 3 * m < 350 - m * (3277 / 32768)" by linarith
      then show ?thesis using False by simp
    qed
    finally show ?thesis .
  qed
  have ins2: "SafeZone_isInside Z' (position P) = (n < 112)"
    unfolding P_def Entity.simps by (rule ins)
  have s5: "update_zone (g3\<lparr>enemies := replicate 5 E'\<rparr>)
      = g3\<lparr>enemies := replicate 5 E', safeZone := Z',
           player := P\<lparr>health := 100 - int (Suc n - 112)\<rparr>\<rparr>"
  proof (cases "n < 112")
    case True
    then have "P\<lparr>health := 100 - int (Suc n - 112)\<rparr> = P" by (simp add: P_def)
    then show ?thesis using True
      by (simp add: update_zone_def Let_def g3_def z ins2)
  next
    case False
    then have "100 - int (n - 112) - 1 = 100 - int (Suc n - 112)" by simp
    then have "Entity_takeDamage 1 P = P\<lparr>health := 100 - int (Suc n - 112)\<rparr>"
      by (simp add: Entity_takeDamage_def P_def)
    then show ?thesis using False
      by (simp add: update_zone_def Let_def g3_def z ins2)
  qed
  have s6: "spawn_enemy (walk_frame n) (g3\<lparr>enemies := replicate 5 E', safeZone := Z',
           player := P\<lparr>health := 100 - int (Suc n - 112)\<rparr>\<rparr>) = walk_state (Suc n)"
  proof -
    have "(of_nat (Suc n) :: rat) / 64 \<le> 3" using n by simp
    then have "\<not> 3 < (of_nat (Suc n) :: rat) / 64" by simp
    then show ?thesis
      by (simp add: spawn_enemy_def g3_def f32_numeral del: of_nat_Suc)
        (simp add: walk_state_def P_def E'_def Z'_def algebra_simps)
  qed
  have alive: "Entity_isAlive (player (walk_state (Suc n)))"
    using assms by (simp add: walk_state_def Entity_isAlive_def)
  have "simulate (walk_frame n) (walk_state n) = walk_state (Suc n)"
    by (simp only: simulate_def before_spawn_def Let_def s3 s4 s5 s6)
  then show ?thesis using alive
    by (simp add: loop_body_def game_over_def) (simp add: walk_frame_def)
qed

lemma main_loop_snoc:
  "main_loop (fs @ [f]) g
     = (if window_isOpen (main_loop fs g) then loop_body f (main_loop fs g) else main_loop fs g)"
proof (induction fs arbitrary: g)
  case Nil
  show ?case by simp
next
  case (Cons a fs)
  show ?case
  proof (cases "window_isOpen g")
    case True
    then show ?thesis by (simp add: Cons.IH)
  next
    case False
    then show ?thesis by simp
  qed
qed

lemma walk_run:
  assumes "n \<le> 120"
  shows "main_loop (map walk_frame [0..<n]) (walk_state 0) = walk_state n"
  using assms
proof (induction n)
  case 0
  show ?case by simp
next
  case (Suc n)
  then have "main_loop (map walk_frame [0..<n]) (walk_state 0) = walk_state n" by simp
  moreover have "window_isOpen (walk_state n)" by (simp add: walk_state_def)
  moreover have "loop_body (walk_frame n) (walk_state n) = walk_state (Suc n)"
    using Suc.prems by (intro walk_step) simp
  ultimately show ?case by (simp add: main_loop_snoc del: of_nat_Suc)
qed

lemma walk_out_of_window:
  "out_of_window \<lparr>vx = 600, vy = 350 - 3 * of_nat n\<rparr> = (116 < n)"
proof -
  have w: "i2f WINDOW_WIDTH = 1200" "i2f WINDOW_HEIGHT = 700"
    by (simp_all add: WINDOW_WIDTH_def WINDOW_HEIGHT_def i2f_def rnd_numeral)
  have "((350 :: rat) - 3 * of_nat n < 0) = (116 < n)"
  proof (cases "116 < n")
    case True
    then have "117 \<le> n" by simp
    then have "(117 :: rat) \<le> of_nat n" by (metis of_nat_le_iff of_nat_numeral)
    then show ?thesis using True by simp
  next
    case False
    then have "n \<le> 116" by simp
    then have "(of_nat n :: rat) \<le> 116" by (metis of_nat_le_iff of_nat_numeral)
    then show ?thesis using False by simp
  qed
  moreover have "\<not> (350 :: rat) - 3 * of_nat n > 700"
  proof -
    have "(0 :: rat) \<le> of_nat n" by simp
    then show ?thesis by linarith
  qed
  ultimately show ?thesis by (simp add: out_of_window_def w)
qed

lemma update_zone_damage:
  "health (player (update_zone g))
     = (if SafeZone_isInside (SafeZone_update (safeZone g)) (position (player g))
        then health (player g) else health (player g) - 1)"
  by (simp add: update_zone_def Let_def Entity_takeDamage_def)

lemma Player_handleInput_position:
  "position (Player_handleInput w s a d e) = position e"
  by (simp add: Player_handleInput_def Let_def)

lemma move_player_position:
  "position (player (move_player f g))
     = vec_add (position (player g))
         (velocity (Player_handleInput (key_W f) (key_S f) (key_A f) (key_D f) (player g)))"
  by (simp add: move_player_def Entity_move_def Player_handleInput_position)

section \<open>Bullets against enemies\<close>

lemma bullet_scan_miss:
  "\<forall>b\<in>set bs. \<not> hits (scan_enemy s) b \<Longrightarrow>
     bullet_scan bs s = s\<lparr>scan_bullets := scan_bullets s @ bs\<rparr>"
  by (induction bs arbitrary: s) simp_all

lemma bullet_scan_first_hit:
  assumes "\<forall>b\<in>set pre. \<not> hits (scan_enemy s) b" "hits (scan_enemy s) b"
  shows "bullet_scan (pre @ b # post) s =
     (if health (scan_enemy s) - 25 \<le> 0
      then s\<lparr>scan_enemy := Entity_takeDamage 25 (scan_enemy s),
              scan_bullets := scan_bullets s @ pre @ post,
              scan_score := scan_score s + 10, scan_killCount := scan_killCount s + 1,
              scan_dead := True\<rparr>
      else s\<lparr>scan_enemy := Entity_takeDamage 25 (scan_enemy s),
              scan_bullets := scan_bullets s @ pre @ post\<rparr>)"
  using assms
proof (induction pre arbitrary: s)
  case Nil
  then show ?case by (simp add: Let_def Entity_isAlive_def Entity_takeDamage_def)
next
  case (Cons a pre)
  then show ?case by simp
qed

lemma health_moved_enemy: "health (Entity_move (Enemy_update p e)) = health e"
  by (simp add: Entity_move_def Enemy_update_def Let_def)

lemma enemy_step_miss:
  assumes "\<forall>b\<in>set (bullets g). \<not> hits (Entity_move (Enemy_update (position (player g)) e)) b"
  shows "bullets (enemy_step e g) = bullets g" "score (enemy_step e g) = score g"
    "killCount (enemy_step e g) = killCount g"
    "enemies (enemy_step e g) = enemies g @ [Entity_move (Enemy_update (position (player g)) e)]"
  using assms by (simp_all add: enemy_step_def Let_def bullet_scan_miss)

lemma enemy_step_hit:
  assumes "bullets g = pre @ b # post"
    "\<forall>a\<in>set pre. \<not> hits (Entity_move (Enemy_update (position (player g)) e)) a"
    "hits (Entity_move (Enemy_update (position (player g)) e)) b"
  shows "bullets (enemy_step e g) = pre @ post"
    "health e - 25 \<le> 0 \<Longrightarrow> score (enemy_step e g) = score g + 10"
    "health e - 25 \<le> 0 \<Longrightarrow> killCount (enemy_step e g) = killCount g + 1"
    "health e - 25 \<le> 0 \<Longrightarrow> enemies (enemy_step e g) = enemies g"
    "0 < health e - 25 \<Longrightarrow> score (enemy_step e g) = score g"
    "0 < health e - 25 \<Longrightarrow> killCount (enemy_step e g) = killCount g"
    "0 < health e - 25 \<Longrightarrow> enemies (enemy_step e g)
        = enemies g @ [(Entity_move (Enemy_update (position (player g)) e))\<lparr>health := health e - 25\<rparr>]"
proof -
  define e1 where "e1 = Entity_move (Enemy_update (position (player g)) e)"
  have h: "health e1 = health e" by (simp add: e1_def health_moved_enemy)
  have a: "\<forall>a\<in>set pre. \<not> hits e1 a" "hits e1 b" using assms(2,3) by (simp_all add: e1_def)
  show "bullets (enemy_step e g) = pre @ post"
    "health e - 25 \<le> 0 \<Longrightarrow> score (enemy_step e g) = score g + 10"
    "health e - 25 \<le> 0 \<Longrightarrow> killCount (enemy_step e g) = killCount g + 1"
    "health e - 25 \<le> 0 \<Longrightarrow> enemies (enemy_step e g) = enemies g"
    "0 < health e - 25 \<Longrightarrow> score (enemy_step e g) = score g"
    "0 < health e - 25 \<Longrightarrow> killCount (enemy_step e g) = killCount g"
    "0 < health e - 25 \<Longrightarrow> enemies (enemy_step e g)
        = enemies g @ [(Entity_move (Enemy_update (position (player g)) e))\<lparr>health := health e - 25\<rparr>]"
    unfolding e1_def [symmetric]
    by (simp_all add: enemy_step_def Let_def e1_def [symmetric] assms(1) a
        bullet_scan_first_hit h Entity_takeDamage_def)
qed

lemma subseq_without: "subseq (pre @ post) (pre @ b # post)"
  by (intro list_emb_append_mono list_emb_Cons) simp_all

lemma enemy_step_outcome:
  "\<exists>out. (out = Some (Entity_move (Enemy_update (position (player g)) e))
          \<or> out = Some ((Entity_move (Enemy_update (position (player g)) e))\<lparr>health := health e - 25\<rparr>)
            \<and> 0 < health e - 25
          \<or> out = None \<and> health e - 25 \<le> 0)
     \<and> enemies (enemy_step e g) = enemies g @ List.map_filter (\<lambda>x. x) [out]
     \<and> score (enemy_step e g) = score g + 10 * int (count_list [out] None)
     \<and> killCount (enemy_step e g) = killCount g + int (count_list [out] None)
     \<and> subseq (bullets (enemy_step e g)) (bullets g)
     \<and> length (bullets g) \<le> length (bullets (enemy_step e g)) + 1"
proof (cases "\<forall>b\<in>set (bullets g). \<not> hits (Entity_move (Enemy_update (position (player g)) e)) b")
  case True
  show ?thesis
    by (rule exI [of _ "Some (Entity_move (Enemy_update (position (player g)) e))"])
      (simp add: enemy_step_miss [OF True] map_filter_simps)
next
  case False
  then have "\<exists>b\<in>set (bullets g). hits (Entity_move (Enemy_update (position (player g)) e)) b"
    by simp
  then obtain pre b post where s: "bullets g = pre @ b # post"
    "hits (Entity_move (Enemy_update (position (player g)) e)) b"
    "\<forall>a\<in>set pre. \<not> hits (Entity_move (Enemy_update (position (player g)) e)) a"
    using split_list_first_prop
      [of "bullets g" "hits (Entity_move (Enemy_update (position (player g)) e))"] by blast
  note H = enemy_step_hit [OF s(1) s(3) s(2)]
  show ?thesis
  proof (cases "health e - 25 \<le> 0")
    case True
    show ?thesis using True
      by (intro exI [of _ None])
        (simp add: H(1) H(2-4) [OF True] s(1) map_filter_simps subseq_without)
  next
    case False
    then have p: "0 < health e - 25" by simp
    show ?thesis using p
      by (intro exI [of _ "Some ((Entity_move (Enemy_update (position (player g)) e))
            \<lparr>health := health e - 25\<rparr>)"])
        (simp add: H(1) H(5-7) [OF p] s(1) map_filter_simps subseq_without)
  qed
qed

lemma enemy_loop_outcome:
  assumes "position (player g) = p"
  shows "\<exists>outs. list_all2 (\<lambda>e out. out = Some (Entity_move (Enemy_update p e))
              \<or> out = Some ((Entity_move (Enemy_update p e))\<lparr>health := health e - 25\<rparr>)
                \<and> 0 < health e - 25
              \<or> out = None \<and> health e - 25 \<le> 0) es outs
     \<and> enemies (enemy_loop es g) = enemies g @ List.map_filter (\<lambda>x. x) outs
     \<and> score (enemy_loop es g) = score g + 10 * int (count_list outs None)
     \<and> killCount (enemy_loop es g) = killCount g + int (count_list outs None)
     \<and> subseq (bullets (enemy_loop es g)) (bullets g)
     \<and> length (bullets g) \<le> length (bullets (enemy_loop es g)) + length es"
  using assms
proof (induction es arbitrary: g)
  case Nil
  show ?case by (simp add: map_filter_simps)
next
  case (Cons e es)
  from enemy_step_outcome [of g e] obtain out where o:
    "out = Some (Entity_move (Enemy_update p e))
       \<or> out = Some ((Entity_move (Enemy_update p e))\<lparr>health := health e - 25\<rparr>)
         \<and> 0 < health e - 25
       \<or> out = None \<and> health e - 25 \<le> 0"
    "enemies (enemy_step e g) = enemies g @ List.map_filter (\<lambda>x. x) [out]"
    "score (enemy_step e g) = score g + 10 * int (count_list [out] None)"
    "killCount (enemy_step e g) = killCount g + int (count_list [out] None)"
    "subseq (bullets (enemy_step e g)) (bullets g)"
    "length (bullets g) \<le> length (bullets (enemy_step e g)) + 1"
    unfolding Cons.prems by blast
  have "position (player (enemy_step e g)) = p" by (simp add: enemy_step_frame Cons.prems)
  from Cons.IH [OF this] obtain outs where os:
    "list_all2 (\<lambda>e out. out = Some (Entity_move (Enemy_update p e))
              \<or> out = Some ((Entity_move (Enemy_update p e))\<lparr>health := health e - 25\<rparr>)
                \<and> 0 < health e - 25
              \<or> out = None \<and> health e - 25 \<le> 0) es outs"
    "enemies (enemy_loop es (enemy_step e g)) = enemies (enemy_step e g) @ List.map_filter (\<lambda>x. x) outs"
    "score (enemy_loop es (enemy_step e g)) = score (enemy_step e g) + 10 * int (count_list outs None)"
    "killCount (enemy_loop es (enemy_step e g))
       = killCount (enemy_step e g) + int (count_list outs None)"
    "subseq (bullets (enemy_loop es (enemy_step e g))) (bullets (enemy_step e g))"
    "length (bullets (enemy_step e g)) \<le> length (bullets (enemy_loop es (enemy_step e g))) + length es"
    by blast
  have m: "List.map_filter (\<lambda>x. x) [out] @ List.map_filter (\<lambda>x. x) outs
             = List.map_filter (\<lambda>x. x) (out # outs)"
    by (cases out) (simp_all add: map_filter_simps)
  have sb: "subseq (bullets (enemy_loop es (enemy_step e g))) (bullets g)"
    using os(5) o(5) by (rule subseq_order.order_trans)
  show ?case
  proof (intro exI [of _ "out # outs"] conjI)
    show "list_all2 (\<lambda>e out. out = Some (Entity_move (Enemy_update p e))
              \<or> out = Some ((Entity_move (Enemy_update p e))\<lparr>health := health e - 25\<rparr>)
                \<and> 0 < health e - 25
              \<or> out = None \<and> health e - 25 \<le> 0) (e # es) (out # outs)"
      using o(1) os(1) by simp
    show "enemies (enemy_loop (e # es) g) = enemies g @ List.map_filter (\<lambda>x. x) (out # outs)"
      by (simp only: enemy_loop.simps os(2) o(2) append_assoc m)
    show "score (enemy_loop (e # es) g) = score g + 10 * int (count_list (out # outs) None)"
      by (simp add: os(3) o(3))
    show "killCount (enemy_loop (e # es) g) = killCount g + int (count_list (out # outs) None)"
      by (simp add: os(4) o(4))
    show "subseq (bullets (enemy_loop (e # es) g)) (bullets g)" using sb by simp
    show "length (bullets g) \<le> length (bullets (enemy_loop (e # es) g)) + length (e # es)"
      using o(6) os(6) by simp
  qed
qed

lemma enemy_loop_fold: "enemy_loop es g = fold enemy_step es g"
  by (induction es arbitrary: g) simp_all

lemma loop_body_enemy_phase:
  "bullets (loop_body f g)
     = bullets (update_enemies ((move_player f (advance_clock f (poll_events (events f) g)))
         \<lparr>bullets := update_bullets (bullets (move_player f (advance_clock f (poll_events (events f) g))))\<rparr>))"
  "score (loop_body f g)
     = score (update_enemies ((move_player f (advance_clock f (poll_events (events f) g)))
         \<lparr>bullets := update_bullets (bullets (move_player f (advance_clock f (poll_events (events f) g))))\<rparr>))"
  "killCount (loop_body f g)
     = killCount (update_enemies ((move_player f (advance_clock f (poll_events (events f) g)))
         \<lparr>bullets := update_bullets (bullets (move_player f (advance_clock f (poll_events (events f) g))))\<rparr>))"
  "enemies (loop_body f g)
     = enemies (update_enemies ((move_player f (advance_clock f (poll_events (events f) g)))
         \<lparr>bullets := update_bullets (bullets (move_player f (advance_clock f (poll_events (events f) g))))\<rparr>))
   \<or> enemies (loop_body f g)
     = enemies (update_enemies ((move_player f (advance_clock f (poll_events (events f) g)))
         \<lparr>bullets := update_bullets (bullets (move_player f (advance_clock f (poll_events (events f) g))))\<rparr>))
       @ [spawn (rand_x f) (rand_y f) (rand_speed f)]"
  by (simp_all add: loop_body_def game_over_frame simulate_def before_spawn_def Let_def
      spawn_enemy_frame update_zone_frame spawn_enemy_def)

text \<open>
  Claim C1. In one pass of the enemy loop the enemy first seeks the player and moves; call
  the moved enemy \<open>e1\<close>. If no bullet is in range of \<open>e1\<close>, the bullets, the score and the
  kill count stay and the enemy stays. Otherwise let \<open>b\<close> be the first bullet in range, after
  the bullets \<open>pre\<close> out of range and before the bullets \<open>post\<close> (in range or not): exactly \<open>b\<close>
  is removed, the enemy loses exactly 25 health, and if that brings its health to 0 or
  below, the score grows by 10, the kill count by 1 and the enemy is removed; if not, score
  and kill count stay and the enemy stays with its health lowered by 25.

  In a frame the enemy phase makes exactly one such pass for each enemy, in the order of the
  enemies, each pass on the state the passes before it have left. So every enemy of the
  frame has one of three outcomes: it has moved and is otherwise unchanged, it has moved and
  lost exactly 25 health and is kept, or it is removed because the one hit brought its
  health to 0 or below; the enemies after the phase are the kept ones in their order, and the
  score has grown by 10 and the kill count by 1 for each removed enemy. The bullets after
  the phase are bullets of before in their order, and no more bullets are gone than there are
  enemies. The bullets, the score and the kill count at the end of the frame are those the
  enemy phase leaves, on the state after the events, the player's move and the bullets'
  moves; the enemies at the end of the frame are those the phase leaves and the one the spawn
  may add.
\<close>

theorem first_bullet_in_range_hits:
  "((\<forall>b\<in>set (bullets g). \<not> hits (Entity_move (Enemy_update (position (player g)) e)) b) \<longrightarrow>
      bullets (enemy_step e g) = bullets g \<and> score (enemy_step e g) = score g
      \<and> killCount (enemy_step e g) = killCount g
      \<and> enemies (enemy_step e g) = enemies g @ [Entity_move (Enemy_update (position (player g)) e)])
   \<and> (bullets g = pre @ b # post
       \<and> (\<forall>a\<in>set pre. \<not> hits (Entity_move (Enemy_update (position (player g)) e)) a)
       \<and> hits (Entity_move (Enemy_update (position (player g)) e)) b \<longrightarrow>
      bullets (enemy_step e g) = pre @ post
      \<and> (health e - 25 \<le> 0 \<longrightarrow>
            score (enemy_step e g) = score g + 10 \<and> killCount (enemy_step e g) = killCount g + 1
            \<and> enemies (enemy_step e g) = enemies g)
      \<and> (0 < health e - 25 \<longrightarrow>
            score (enemy_step e g) = score g \<and> killCount (enemy_step e g) = killCount g
            \<and> enemies (enemy_step e g)
                = enemies g @ [(Entity_move (Enemy_update (position (player g)) e))
                                 \<lparr>health := health e - 25\<rparr>]))
   \<and> update_enemies g = fold enemy_step (enemies g) (g\<lparr>enemies := []\<rparr>)
   \<and> (\<exists>outs.
         list_all2 (\<lambda>e out.
             out = Some (Entity_move (Enemy_update (position (player g)) e))
             \<or> out = Some ((Entity_move (Enemy_update (position (player g)) e))
                            \<lparr>health := health e - 25\<rparr>)
               \<and> 0 < health e - 25
             \<or> out = None \<and> health e - 25 \<le> 0) (enemies g) outs
         \<and> enemies (update_enemies g) = List.map_filter (\<lambda>out. out) outs
         \<and> score (update_enemies g) = score g + 10 * int (count_list outs None)
         \<and> killCount (update_enemies g) = killCount g + int (count_list outs None))
   \<and> subseq (bullets (update_enemies g)) (bullets g)
   \<and> length (bullets g) \<le> length (bullets (update_enemies g)) + length (enemies g)
   \<and> (let g2 = move_player f (advance_clock f (poll_events (events f) g));
           g4 = update_enemies (g2\<lparr>bullets := update_bullets (bullets g2)\<rparr>)
       in bullets (loop_body f g) = bullets g4 \<and> score (loop_body f g) = score g4
          \<and> killCount (loop_body f g) = killCount g4
          \<and> (enemies (loop_body f g) = enemies g4
             \<or> enemies (loop_body f g) = enemies g4 @ [spawn (rand_x f) (rand_y f) (rand_speed f)]))"
proof -
  have p: "position (player (g\<lparr>enemies := []\<rparr>)) = position (player g)" by simp
  from enemy_loop_outcome [OF p, of "enemies g"] obtain outs where o:
    "list_all2 (\<lambda>e out.
             out = Some (Entity_move (Enemy_update (position (player g)) e))
             \<or> out = Some ((Entity_move (Enemy_update (position (player g)) e))
                            \<lparr>health := health e - 25\<rparr>)
               \<and> 0 < health e - 25
             \<or> out = None \<and> health e - 25 \<le> 0) (enemies g) outs"
    "enemies (update_enemies g) = List.map_filter (\<lambda>out. out) outs"
    "score (update_enemies g) = score g + 10 * int (count_list outs None)"
    "killCount (update_enemies g) = killCount g + int (count_list outs None)"
    "subseq (bullets (update_enemies g)) (bullets g)"
    "length (bullets g) \<le> length (bullets (update_enemies g)) + length (enemies g)"
    unfolding update_enemies_def by auto
  have frame: "\<exists>outs.
         list_all2 (\<lambda>e out.
             out = Some (Entity_move (Enemy_update (position (player g)) e))
             \<or> out = Some ((Entity_move (Enemy_update (position (player g)) e))
                            \<lparr>health := health e - 25\<rparr>)
               \<and> 0 < health e - 25
             \<or> out = None \<and> health e - 25 \<le> 0) (enemies g) outs
         \<and> enemies (update_enemies g) = List.map_filter (\<lambda>out. out) outs
         \<and> score (update_enemies g) = score g + 10 * int (count_list outs None)
         \<and> killCount (update_enemies g) = killCount g + int (count_list outs None)"
    using o(1-4) by blast
  have fold: "update_enemies g = fold enemy_step (enemies g) (g\<lparr>enemies := []\<rparr>)"
    by (simp add: update_enemies_def enemy_loop_fold)
  have miss: "(\<forall>b\<in>set (bullets g). \<not> hits (Entity_move (Enemy_update (position (player g)) e)) b) \<longrightarrow>
      bullets (enemy_step e g) = bullets g \<and> score (enemy_step e g) = score g
      \<and> killCount (enemy_step e g) = killCount g
      \<and> enemies (enemy_step e g) = enemies g @ [Entity_move (Enemy_update (position (player g)) e)]"
    by (intro impI conjI enemy_step_miss)
  have hit: "bullets g = pre @ b # post
       \<and> (\<forall>a\<in>set pre. \<not> hits (Entity_move (Enemy_update (position (player g)) e)) a)
       \<and> hits (Entity_move (Enemy_update (position (player g)) e)) b \<longrightarrow>
      bullets (enemy_step e g) = pre @ post
      \<and> (health e - 25 \<le> 0 \<longrightarrow>
            score (enemy_step e g) = score g + 10 \<and> killCount (enemy_step e g) = killCount g + 1
            \<and> enemies (enemy_step e g) = enemies g)
      \<and> (0 < health e - 25 \<longrightarrow>
            score (enemy_step e g) = score g \<and> killCount (enemy_step e g) = killCount g
            \<and> enemies (enemy_step e g)
                = enemies g @ [(Entity_move (Enemy_update (position (player g)) e))
                                 \<lparr>health := health e - 25\<rparr>])"
  proof (intro impI, elim conjE)
    assume a: "bullets g = pre @ b # post"
      "\<forall>a\<in>set pre. \<not> hits (Entity_move (Enemy_update (position (player g)) e)) a"
      "hits (Entity_move (Enemy_update (position (player g)) e)) b"
    note H = enemy_step_hit [OF a]
    show "bullets (enemy_step e g) = pre @ post
      \<and> (health e - 25 \<le> 0 \<longrightarrow>
            score (enemy_step e g) = score g + 10 \<and> killCount (enemy_step e g) = killCount g + 1
            \<and> enemies (enemy_step e g) = enemies g)
      \<and> (0 < health e - 25 \<longrightarrow>
            score (enemy_step e g) = score g \<and> killCount (enemy_step e g) = killCount g
            \<and> enemies (enemy_step e g)
                = enemies g @ [(Entity_move (Enemy_update (position (player g)) e))
                                 \<lparr>health := health e - 25\<rparr>])"
      using H by blast
  qed
  have body: "let g2 = move_player f (advance_clock f (poll_events (events f) g));
           g4 = update_enemies (g2\<lparr>bullets := update_bullets (bullets g2)\<rparr>)
       in bullets (loop_body f g) = bullets g4 \<and> score (loop_body f g) = score g4
          \<and> killCount (loop_body f g) = killCount g4
          \<and> (enemies (loop_body f g) = enemies g4
             \<or> enemies (loop_body f g) = enemies g4 @ [spawn (rand_x f) (rand_y f) (rand_speed f)])"
    unfolding Let_def using loop_body_enemy_phase [of f g] by blast
  from miss hit fold frame o(5) o(6) body show ?thesis by (intro conjI)
qed

theorem first_bullet_in_range_hits_witness:
  "let B = Bullet_ctor 600 350 0 0;
       E = Entity_ctor 600 350 1 50;
       D = Entity_ctor 600 350 1 25;
       G = (initial 0 0 (\<lambda>i. (0, 0, 0)))\<lparr>enemies := [E, D], bullets := [B, B, B]\<rparr>;
       F = \<lparr>events = [], clock_now = 15625, key_W = False, key_S = False, key_A = False,
             key_D = False, rand_x = 0, rand_y = 0, rand_speed = 0\<rparr>;
       G2 = move_player F (advance_clock F (poll_events (events F) G));
       G3 = G2\<lparr>bullets := update_bullets (bullets G2)\<rparr>;
       Z = G3\<lparr>enemies := []\<rparr>;
       N = Z\<lparr>bullets := []\<rparr>
   in bullets N = [] \<and> bullets (enemy_step D N) = [] \<and> score (enemy_step D N) = 0
      \<and> killCount (enemy_step D N) = 0 \<and> enemies (enemy_step D N) = [D]
      \<and> bullets Z = [] @ B # [B, B]
      \<and> hits (Entity_move (Enemy_update (position (player Z)) E)) B
      \<and> 0 < health E - 25
      \<and> bullets (enemy_step E Z) = [B, B] \<and> score (enemy_step E Z) = 0
      \<and> killCount (enemy_step E Z) = 0 \<and> enemies (enemy_step E Z) = [E\<lparr>health := 25\<rparr>]
      \<and> bullets (enemy_step E Z) = [] @ B # [B]
      \<and> hits (Entity_move (Enemy_update (position (player (enemy_step E Z))) D)) B
      \<and> health D - 25 \<le> 0
      \<and> update_enemies G3 = enemy_step D (enemy_step E Z)
      \<and> bullets (update_enemies G3) = [B] \<and> score (update_enemies G3) = 10
      \<and> killCount (update_enemies G3) = 1 \<and> enemies (update_enemies G3) = [E\<lparr>health := 25\<rparr>]
      \<and> bullets (loop_body F G) = [B] \<and> score (loop_body F G) = 10
      \<and> killCount (loop_body F G) = 1 \<and> enemies (loop_body F G) = [E\<lparr>health := 25\<rparr>]"
proof -
  let ?B = "Bullet_ctor 600 350 0 0"
  let ?E = "Entity_ctor 600 350 1 50"
  let ?D = "Entity_ctor 600 350 1 25"
  let ?G = "(initial 0 0 (\<lambda>i. (0, 0, 0)))\<lparr>enemies := [?E, ?D], bullets := [?B, ?B, ?B]\<rparr>"
  let ?F = "\<lparr>events = [], clock_now = 15625, key_W = False, key_S = False, key_A = False,
             key_D = False, rand_x = 0, rand_y = 0, rand_speed = 0\<rparr>"
  let ?P = "move_player ?F (advance_clock ?F (poll_events (events ?F) ?G))"
  let ?Q = "?P\<lparr>bullets := update_bullets (bullets ?P)\<rparr>"
  let ?Z = "?Q\<lparr>enemies := []\<rparr>"
  let ?H = "enemy_step ?E ?Z"
  let ?N = "?Z\<lparr>bullets := []\<rparr>"
  have bm: "Bullet_move ?B = ?B"
    by (simp add: Bullet_move_def Bullet_ctor_def Let_def vec_add_def float_eval)
  have oow: "\<not> out_of_window (shape_position ?B)"
    by (simp add: out_of_window_def Bullet_ctor_position WINDOW_WIDTH_def WINDOW_HEIGHT_def
        float_eval)
  have ub: "update_bullets [?B, ?B, ?B] = [?B, ?B, ?B]"
    by (simp add: Let_def bm oow)
  have bp: "bullets ?P = [?B, ?B, ?B]"
    by (simp add: move_player_def advance_clock_def Let_def)
  have p0: "position (player ?Z) = \<lparr>vx = 600, vy = 350\<rparr>"
    by (simp add: move_player_def advance_clock_def Let_def initial_def Player_ctor_eval
        Player_handleInput_no_keys Entity_move_def vec_add_def float_eval)
  have p1: "position (player ?H) = \<lparr>vx = 600, vy = 350\<rparr>"
    unfolding enemy_step_frame by (rule p0)
  have pn: "position (player ?N) = \<lparr>vx = 600, vy = 350\<rparr>"
    using p0 by simp
  have m: "Entity_move (Enemy_update \<lparr>vx = 600, vy = 350\<rparr> (Entity_ctor 600 350 1 h))
            = Entity_ctor 600 350 1 h" for h
    by (simp add: Enemy_update_same_position Entity_ctor_def Entity_move_def vec_add_def float_eval)
  have h: "hits (Entity_ctor 600 350 1 h) ?B" for h
    by (simp add: hits_def Bullet_ctor_def Entity_ctor_def float_eval)
  have hE: "0 < health ?E - 25" "health ?E - 25 = 25" by (simp_all add: Entity_ctor_def)
  have hD: "health ?D - 25 \<le> 0" by (simp add: Entity_ctor_def)
  have z: "score ?Z = 0" "killCount ?Z = 0" "enemies ?Z = []" "bullets ?Z = [] @ ?B # [?B, ?B]"
    unfolding bp ub by (simp_all add: move_player_def advance_clock_def Let_def initial_def)
  have zn: "score ?N = 0" "killCount ?N = 0" "enemies ?N = []" "bullets ?N = []"
    using z(1,2) by simp_all
  have an: "\<forall>b\<in>set (bullets ?N). \<not> hits (Entity_move (Enemy_update (position (player ?N)) ?D)) b"
    by simp
  from first_bullet_in_range_hits [of ?N ?D, THEN conjunct1, THEN mp, OF an]
  have s0: "bullets (enemy_step ?D ?N) = []" "score (enemy_step ?D ?N) = 0"
    "killCount (enemy_step ?D ?N) = 0" "enemies (enemy_step ?D ?N) = [?D]"
    unfolding pn m zn by simp_all
  have a1: "bullets ?Z = [] @ ?B # [?B, ?B]
       \<and> (\<forall>a\<in>set []. \<not> hits (Entity_move (Enemy_update (position (player ?Z)) ?E)) a)
       \<and> hits (Entity_move (Enemy_update (position (player ?Z)) ?E)) ?B"
    unfolding p0 m using h z(4) by simp
  from first_bullet_in_range_hits [of ?Z ?E "[]" ?B "[?B, ?B]", THEN conjunct2, THEN conjunct1,
      rule_format, OF a1] hE(1)
  have s1: "bullets ?H = [?B, ?B]" "score ?H = 0" "killCount ?H = 0"
    "enemies ?H = [?E\<lparr>health := 25\<rparr>]"
    unfolding p0 m z hE(2) by simp_all
  have a2: "bullets ?H = [] @ ?B # [?B]
       \<and> (\<forall>a\<in>set []. \<not> hits (Entity_move (Enemy_update (position (player ?H)) ?D)) a)
       \<and> hits (Entity_move (Enemy_update (position (player ?H)) ?D)) ?B"
    unfolding p1 m using h s1(1) by simp
  from first_bullet_in_range_hits [of ?H ?D "[]" ?B "[?B]", THEN conjunct2, THEN conjunct1,
      rule_format, OF a2] hD
  have s2: "bullets (enemy_step ?D ?H) = [?B]" "score (enemy_step ?D ?H) = 10"
    "killCount (enemy_step ?D ?H) = 1" "enemies (enemy_step ?D ?H) = [?E\<lparr>health := 25\<rparr>]"
    unfolding s1 by simp_all
  have eq: "enemies ?Q = [?E, ?D]"
    by (simp add: move_player_def advance_clock_def Let_def)
  from first_bullet_in_range_hits [of ?Q, THEN conjunct2, THEN conjunct2, THEN conjunct1]
  have u: "update_enemies ?Q = enemy_step ?D ?H" unfolding eq by simp
  have t: "timeSinceLastSpawn (update_zone (update_enemies ?Q)) = 1 / 64"
  proof -
    have "fadd 0 (1 / 64) = 1 / 64" using rnd_dyadic [of 1 24 6] by (simp add: fadd_def)
    then show ?thesis
      by (simp add: update_zone_frame update_enemies_frame move_player_def advance_clock_def
          Let_def initial_def asSeconds_15625)
  qed
  have ns: "spawn_enemy ?F (update_zone (update_enemies ?Q)) = update_zone (update_enemies ?Q)"
    unfolding spawn_enemy_def t by (simp add: f32_numeral)
  from first_bullet_in_range_hits [of ?G _ _ _ _ ?F, THEN conjunct2, THEN conjunct2,
      THEN conjunct2, THEN conjunct2, THEN conjunct2, THEN conjunct2]
  have l: "bullets (loop_body ?F ?G) = bullets (update_enemies ?Q)"
    "score (loop_body ?F ?G) = score (update_enemies ?Q)"
    "killCount (loop_body ?F ?G) = killCount (update_enemies ?Q)"
    unfolding Let_def by blast+
  have le: "enemies (loop_body ?F ?G) = enemies (update_enemies ?Q)"
    by (simp only: loop_body_def game_over_frame simulate_def before_spawn_def Let_def ns
        update_zone_frame)
  have c: "hits (Entity_move (Enemy_update (position (player ?Z)) ?E)) ?B"
    "hits (Entity_move (Enemy_update (position (player ?H)) ?D)) ?B"
    using a1 a2 by blast+
  have b: "bullets ?H = [] @ ?B # [?B]" using s1(1) by simp
  show ?thesis
    unfolding Let_def l le u
    by (intro conjI zn(4) s0 z(4) c hE(1) hD s1 s2 b refl)
qed

section \<open>The safe zone's radius\<close>

text \<open>
  Claim C2 does not hold of the code. The zone starts with radius 350 and every frame
  applies \<^verbatim>\<open>SafeZone::update\<close> once. The shrink rate is the float \<^verbatim>\<open>0.1f\<close>, which is
  13421773 / 134217728 and not one tenth, and each subtraction is rounded to a float. While
  the result is at least 128 a frame takes 3277 / 32768 off the radius, below 128 it takes
  13107 / 131072. After 2999 frames the radius is 205159 / 4096, still above the floor of 50;
  the frame after that subtracts once more, with no clamp, and leaves 6551981 / 131072
  (about 49.98765), which is below \<^verbatim>\<open>minRadius\<close> and is not 50. From then on the test
  \<^verbatim>\<open>radius > minRadius\<close> fails and the radius keeps that value.
\<close>

theorem safe_zone_radius_ends_below_the_floor:
  "radius SafeZone_ctor = 350 \<and> minRadius SafeZone_ctor = 50
   \<and> shrinkRate SafeZone_ctor = 13421773 / 134217728
   \<and> safeZone (loop_body f g) = SafeZone_update (safeZone g)
   \<and> radius ((SafeZone_update ^^ 2999) SafeZone_ctor) = 205159 / 4096
   \<and> radius ((SafeZone_update ^^ 3000) SafeZone_ctor) = 6551981 / 131072
   \<and> radius ((SafeZone_update ^^ 3000) SafeZone_ctor) < minRadius SafeZone_ctor
   \<and> radius ((SafeZone_update ^^ 3000) SafeZone_ctor) \<noteq> 50
   \<and> radius ((SafeZone_update ^^ (3000 + n)) SafeZone_ctor) = 6551981 / 131072"
  by (simp add: zone_after_2999 zone_after_3000 zone_after_3000_plus loop_body_safeZone)
    (simp add: SafeZone_ctor_eval)

section \<open>The shot cooldown\<close>

text \<open>
  Claim C3, as stated, fails at the boundary: the code fires when the elapsed time is
  strictly greater than \<^verbatim>\<open>BULLET_COOLDOWN\<close>, not when it is greater than or equal. After
  exactly 300000 microseconds \<^verbatim>\<open>asSeconds()\<close> returns the float nearest to 0.3, which is
  \<^verbatim>\<open>0.3f\<close> itself, and a left click fires no bullet.
\<close>

theorem fire_at_cooldown_counterexample:
  "event_type \<lparr>event_type = MouseButtonPressed Mouse_Left, bulletClock_now = 300000,
                mouse_x = 700, mouse_y = 350\<rparr> = MouseButtonPressed Mouse_Left
   \<and> asSeconds (bulletClock_now \<lparr>event_type = MouseButtonPressed Mouse_Left, bulletClock_now = 300000,
                                   mouse_x = 700, mouse_y = 350\<rparr>
                 - bulletClock (initial 0 0 (\<lambda>i. (0, 0, 0)))) \<ge> BULLET_COOLDOWN
   \<and> bullets (handle_event \<lparr>event_type = MouseButtonPressed Mouse_Left, bulletClock_now = 300000,
                            mouse_x = 700, mouse_y = 350\<rparr>
               (initial 0 0 (\<lambda>i. (0, 0, 0))))
       = bullets (initial 0 0 (\<lambda>i. (0, 0, 0)))"
  by (simp add: handle_event_def initial_def asSeconds_300000)

text \<open>
  Claim C3, amended. A left click fires if and only if the time on \<^verbatim>\<open>bulletClock\<close> is
  strictly greater than the cooldown; the test \<^verbatim>\<open>asSeconds() > 0.3f\<close> holds exactly when more
  than 300000 microseconds have elapsed. A click that fires adds exactly one bullet, at the
  end of the bullets, placed at the player's position, and restarts the clock; any other
  event leaves the bullets and the clock as they are. So when a click has fired and a
  second click comes at most 300000 microseconds later, the two clicks together add exactly
  one bullet.
\<close>

theorem fire_after_cooldown:
  "(asSeconds d > BULLET_COOLDOWN) = (d > 300000)
   \<and> (event_type ev = MouseButtonPressed Mouse_Left
        \<and> 300000 < bulletClock_now ev - bulletClock g \<longrightarrow>
       bullets (handle_event ev g)
         = bullets g @ [Bullet_ctor (vx (position (player g))) (vy (position (player g)))
                          (fsub (i2f (mouse_x ev)) (vx (position (player g))))
                          (fsub (i2f (mouse_y ev)) (vy (position (player g))))]
       \<and> shape_position (last (bullets (handle_event ev g))) = position (player g)
       \<and> bulletClock (handle_event ev g) = bulletClock_now ev)
   \<and> (event_type ev \<noteq> MouseButtonPressed Mouse_Left
        \<or> bulletClock_now ev - bulletClock g \<le> 300000 \<longrightarrow>
       bullets (handle_event ev g) = bullets g \<and> bulletClock (handle_event ev g) = bulletClock g)
   \<and> (event_type ev = MouseButtonPressed Mouse_Left
        \<and> 300000 < bulletClock_now ev - bulletClock g
        \<and> bulletClock_now ev2 - bulletClock_now ev \<le> 300000 \<longrightarrow>
       length (bullets (handle_event ev2 (handle_event ev g))) = length (bullets g) + 1)"
proof -
  have fires: "handle_event ev g = fire ev g"
    if "event_type ev = MouseButtonPressed Mouse_Left" "300000 < bulletClock_now ev - bulletClock g"
    for ev g
    using that by (simp add: handle_event_def cooldown_threshold)
  have idle: "bullets (handle_event ev g) = bullets g \<and> bulletClock (handle_event ev g) = bulletClock g"
    if "event_type ev \<noteq> MouseButtonPressed Mouse_Left \<or> bulletClock_now ev - bulletClock g \<le> 300000"
    for ev g
    using that by (auto simp: handle_event_def cooldown_threshold)
  show ?thesis
  proof (intro conjI impI)
    show "(asSeconds d > BULLET_COOLDOWN) = (d > 300000)" by (rule cooldown_threshold)
  next
    assume a: "event_type ev = MouseButtonPressed Mouse_Left
      \<and> 300000 < bulletClock_now ev - bulletClock g"
    then have f: "handle_event ev g = fire ev g" using fires by blast
    show "bullets (handle_event ev g)
         = bullets g @ [Bullet_ctor (vx (position (player g))) (vy (position (player g)))
                          (fsub (i2f (mouse_x ev)) (vx (position (player g))))
                          (fsub (i2f (mouse_y ev)) (vy (position (player g))))]"
      unfolding f by (simp add: fire_def Let_def)
    show "shape_position (last (bullets (handle_event ev g))) = position (player g)"
      unfolding f by (simp add: fire_def Let_def Bullet_ctor_position)
    show "bulletClock (handle_event ev g) = bulletClock_now ev"
      unfolding f by (simp add: fire_def Let_def)
  next
    assume a: "event_type ev \<noteq> MouseButtonPressed Mouse_Left
      \<or> bulletClock_now ev - bulletClock g \<le> 300000"
    show "bullets (handle_event ev g) = bullets g" using idle [OF a] by simp
    show "bulletClock (handle_event ev g) = bulletClock g" using idle [OF a] by simp
  next
    assume a: "event_type ev = MouseButtonPressed Mouse_Left
        \<and> 300000 < bulletClock_now ev - bulletClock g
        \<and> bulletClock_now ev2 - bulletClock_now ev \<le> 300000"
    then have f: "handle_event ev g = fire ev g" using fires by blast
    have "bulletClock_now ev2 - bulletClock (fire ev g) \<le> 300000"
      using a by (simp add: fire_def Let_def)
    then have "bullets (handle_event ev2 (fire ev g)) = bullets (fire ev g)"
      using idle [of ev2 "fire ev g"] by simp
    then show "length (bullets (handle_event ev2 (handle_event ev g))) = length (bullets g) + 1"
      unfolding f by (simp add: fire_def Let_def)
  qed
qed

theorem fire_after_cooldown_witness:
  "event_type \<lparr>event_type = MouseButtonPressed Mouse_Left, bulletClock_now = 300001,
                mouse_x = 700, mouse_y = 350\<rparr> = MouseButtonPressed Mouse_Left
   \<and> (300000::int) < bulletClock_now \<lparr>event_type = MouseButtonPressed Mouse_Left,
          bulletClock_now = 300001, mouse_x = 700, mouse_y = 350\<rparr>
        - bulletClock (initial 0 0 (\<lambda>i. (0, 0, 0)))
   \<and> bulletClock_now \<lparr>event_type = MouseButtonPressed Mouse_Left, bulletClock_now = 600001,
                        mouse_x = 700, mouse_y = 350\<rparr>
       - bulletClock_now \<lparr>event_type = MouseButtonPressed Mouse_Left, bulletClock_now = 300001,
                          mouse_x = 700, mouse_y = 350\<rparr> \<le> 300000
   \<and> shape_position (last (bullets (handle_event
         \<lparr>event_type = MouseButtonPressed Mouse_Left, bulletClock_now = 300001,
          mouse_x = 700, mouse_y = 350\<rparr> (initial 0 0 (\<lambda>i. (0, 0, 0))))))
       = \<lparr>vx = 600, vy = 350\<rparr>
   \<and> bulletClock (handle_event
         \<lparr>event_type = MouseButtonPressed Mouse_Left, bulletClock_now = 300001,
          mouse_x = 700, mouse_y = 350\<rparr> (initial 0 0 (\<lambda>i. (0, 0, 0)))) = 300001
   \<and> length (bullets (handle_event
         \<lparr>event_type = MouseButtonPressed Mouse_Left, bulletClock_now = 600001,
          mouse_x = 700, mouse_y = 350\<rparr>
         (handle_event
           \<lparr>event_type = MouseButtonPressed Mouse_Left, bulletClock_now = 300001,
            mouse_x = 700, mouse_y = 350\<rparr> (initial 0 0 (\<lambda>i. (0, 0, 0)))))) = 1
   \<and> bullets (handle_event
         \<lparr>event_type = OtherEvent, bulletClock_now = 900000, mouse_x = 0, mouse_y = 0\<rparr>
         (initial 0 0 (\<lambda>i. (0, 0, 0)))) = []"
proof -
  let ?E1 = "\<lparr>event_type = MouseButtonPressed Mouse_Left, bulletClock_now = 300001,
               mouse_x = 700, mouse_y = 350\<rparr>"
  let ?E2 = "\<lparr>event_type = MouseButtonPressed Mouse_Left, bulletClock_now = 600001,
               mouse_x = 700, mouse_y = 350\<rparr>"
  let ?E3 = "\<lparr>event_type = OtherEvent, bulletClock_now = 900000, mouse_x = 0, mouse_y = 0\<rparr>"
  let ?G = "initial 0 0 (\<lambda>i. (0, 0, 0))"
  have g: "bulletClock ?G = 0" "bullets ?G = []" "position (player ?G) = \<lparr>vx = 600, vy = 350\<rparr>"
    by (simp_all add: initial_def Player_ctor_eval)
  have h: "event_type ?E1 = MouseButtonPressed Mouse_Left
        \<and> 300000 < bulletClock_now ?E1 - bulletClock ?G
        \<and> bulletClock_now ?E2 - bulletClock_now ?E1 \<le> 300000"
    by (simp add: g)
  from fire_after_cooldown [of 0 ?E1 ?G ?E2, THEN conjunct2, THEN conjunct1] h
  have 1: "shape_position (last (bullets (handle_event ?E1 ?G))) = \<lparr>vx = 600, vy = 350\<rparr>
       \<and> bulletClock (handle_event ?E1 ?G) = 300001"
    by (simp add: g Bullet_ctor_position)
  from fire_after_cooldown [of 0 ?E1 ?G ?E2, THEN conjunct2, THEN conjunct2, THEN conjunct2] h
  have 2: "length (bullets (handle_event ?E2 (handle_event ?E1 ?G))) = 1"
    by (simp add: g)
  from fire_after_cooldown [of 0 ?E3 ?G ?E3, THEN conjunct2, THEN conjunct2, THEN conjunct1]
  have 3: "bullets (handle_event ?E3 ?G) = []"
    by (simp add: g)
  show ?thesis using h 1 2 3 by simp
qed

section \<open>Spawning enemies\<close>

text \<open>
  Claim C4. \<open>before_spawn f g\<close> is the state in which the frame \<open>f\<close> makes its spawn check.
  When the timer there is above 3 and fewer than 10 enemies are left, exactly one enemy is
  added, at the end, and the timer is set to zero; the new enemy's position is inside the
  window (\<open>0 \<le> x < 1200\<close>, \<open>0 \<le> y < 700\<close>). When 10 enemies are there, or the timer is not
  above 3, no enemy is added and the timer is left as it is. The timer at the check is the
  timer of the frame's start plus the frame's time (one float addition), and when the clock
  does not run backwards a timer above 3 stays above 3: so once the timer has passed 3 with
  the enemies at the cap, it is still above 3 at the check of every later frame, and the
  first such check that finds fewer than 10 enemies spawns. The timer a frame leaves is a
  float again. From the initial state no run ever has more than 10 enemies.
\<close>

theorem spawn_policy:
  "(3 < timeSinceLastSpawn (before_spawn f g) \<and> length (enemies (before_spawn f g)) < 10 \<longrightarrow>
      enemies (simulate f g)
        = enemies (before_spawn f g) @ [spawn (rand_x f) (rand_y f) (rand_speed f)]
      \<and> timeSinceLastSpawn (simulate f g) = 0)
   \<and> (0 \<le> vx (position (spawn rx ry rs)) \<and> vx (position (spawn rx ry rs)) < 1200
       \<and> 0 \<le> vy (position (spawn rx ry rs)) \<and> vy (position (spawn rx ry rs)) < 700)
   \<and> (10 \<le> length (enemies (before_spawn f g)) \<or> timeSinceLastSpawn (before_spawn f g) \<le> 3 \<longrightarrow>
      enemies (simulate f g) = enemies (before_spawn f g)
      \<and> timeSinceLastSpawn (simulate f g) = timeSinceLastSpawn (before_spawn f g))
   \<and> timeSinceLastSpawn (before_spawn f g)
       = fadd (timeSinceLastSpawn g) (asSeconds (clock_now f - clock g))
   \<and> (is_float (timeSinceLastSpawn g) \<and> 3 < timeSinceLastSpawn g \<and> clock g \<le> clock_now f \<longrightarrow>
      3 < timeSinceLastSpawn (before_spawn f g))
   \<and> is_float (timeSinceLastSpawn (loop_body f g))
   \<and> timeSinceLastSpawn (loop_body f g) = timeSinceLastSpawn (simulate f (poll_events (events f) g))
   \<and> enemies (loop_body f g) = enemies (simulate f (poll_events (events f) g))
   \<and> clock (loop_body f g) = clock_now f
   \<and> length (enemies (main_loop fs (initial t_clock t_bulletClock rands))) \<le> 10"
proof -
  have fl: "is_float (timeSinceLastSpawn (simulate f g))" for g
    by (simp add: simulate_def spawn_enemy_def before_spawn_timer)
  have init: "length (enemies (initial t_clock t_bulletClock rands)) \<le> 10"
    by (simp add: initial_def)
  show ?thesis
    using spawn_in_window [of rx ry rs] timer_stays_above [of g f]
      main_loop_count [OF init, of fs] fl [of "poll_events (events f) g"]
    by (auto simp: simulate_def spawn_enemy_def f32_numeral before_spawn_timer loop_body_def
        game_over_frame)
qed

theorem spawn_policy_witness:
  "is_float (7 / 2) \<and> (3::rat) < 7 / 2
   \<and> clock ((initial 0 0 (\<lambda>i. (600, 350, 0)))
          \<lparr>enemies := replicate 10 (spawn 600 350 0), timeSinceLastSpawn := 7 / 2,
           clock := 3500000\<rparr>)
       \<le> clock_now \<lparr>events = [], clock_now = 3515625, key_W = False, key_S = False, key_A = False,
          key_D = False, rand_x = 1234, rand_y = 5678, rand_speed = 7\<rparr>
   \<and> 10 \<le> length (enemies (before_spawn
        \<lparr>events = [], clock_now = 3515625, key_W = False, key_S = False, key_A = False,
          key_D = False, rand_x = 1234, rand_y = 5678, rand_speed = 7\<rparr>
        ((initial 0 0 (\<lambda>i. (600, 350, 0)))
          \<lparr>enemies := replicate 10 (spawn 600 350 0), timeSinceLastSpawn := 7 / 2,
           clock := 3500000\<rparr>)))
   \<and> enemies (simulate
        \<lparr>events = [], clock_now = 3515625, key_W = False, key_S = False, key_A = False,
          key_D = False, rand_x = 1234, rand_y = 5678, rand_speed = 7\<rparr>
        ((initial 0 0 (\<lambda>i. (600, 350, 0)))
          \<lparr>enemies := replicate 10 (spawn 600 350 0), timeSinceLastSpawn := 7 / 2,
           clock := 3500000\<rparr>))
       = enemies (before_spawn
        \<lparr>events = [], clock_now = 3515625, key_W = False, key_S = False, key_A = False,
          key_D = False, rand_x = 1234, rand_y = 5678, rand_speed = 7\<rparr>
        ((initial 0 0 (\<lambda>i. (600, 350, 0)))
          \<lparr>enemies := replicate 10 (spawn 600 350 0), timeSinceLastSpawn := 7 / 2,
           clock := 3500000\<rparr>))
   \<and> 3 < timeSinceLastSpawn (simulate
        \<lparr>events = [], clock_now = 3515625, key_W = False, key_S = False, key_A = False,
          key_D = False, rand_x = 1234, rand_y = 5678, rand_speed = 7\<rparr>
        ((initial 0 0 (\<lambda>i. (600, 350, 0)))
          \<lparr>enemies := replicate 10 (spawn 600 350 0), timeSinceLastSpawn := 7 / 2,
           clock := 3500000\<rparr>))
   \<and> 3 < timeSinceLastSpawn (before_spawn
        \<lparr>events = [], clock_now = 3515625, key_W = False, key_S = False, key_A = False,
          key_D = False, rand_x = 1234, rand_y = 5678, rand_speed = 7\<rparr>
        ((initial 0 0 (\<lambda>i. (600, 350, 0)))\<lparr>timeSinceLastSpawn := 7 / 2, clock := 3500000\<rparr>))
   \<and> length (enemies (before_spawn
        \<lparr>events = [], clock_now = 3515625, key_W = False, key_S = False, key_A = False,
          key_D = False, rand_x = 1234, rand_y = 5678, rand_speed = 7\<rparr>
        ((initial 0 0 (\<lambda>i. (600, 350, 0)))\<lparr>timeSinceLastSpawn := 7 / 2, clock := 3500000\<rparr>))) < 10
   \<and> length (enemies (simulate
        \<lparr>events = [], clock_now = 3515625, key_W = False, key_S = False, key_A = False,
          key_D = False, rand_x = 1234, rand_y = 5678, rand_speed = 7\<rparr>
        ((initial 0 0 (\<lambda>i. (600, 350, 0)))\<lparr>timeSinceLastSpawn := 7 / 2, clock := 3500000\<rparr>))) = 6
   \<and> last (enemies (simulate
        \<lparr>events = [], clock_now = 3515625, key_W = False, key_S = False, key_A = False,
          key_D = False, rand_x = 1234, rand_y = 5678, rand_speed = 7\<rparr>
        ((initial 0 0 (\<lambda>i. (600, 350, 0)))\<lparr>timeSinceLastSpawn := 7 / 2, clock := 3500000\<rparr>))) = spawn 1234 5678 7
   \<and> position (spawn 1234 5678 7) = \<lparr>vx = 34, vy = 78\<rparr>
   \<and> timeSinceLastSpawn (simulate
        \<lparr>events = [], clock_now = 3515625, key_W = False, key_S = False, key_A = False,
          key_D = False, rand_x = 1234, rand_y = 5678, rand_speed = 7\<rparr>
        ((initial 0 0 (\<lambda>i. (600, 350, 0)))\<lparr>timeSinceLastSpawn := 7 / 2, clock := 3500000\<rparr>)) = 0"
proof -
  let ?F = "\<lparr>events = [], clock_now = 3515625, key_W = False, key_S = False, key_A = False,
          key_D = False, rand_x = 1234, rand_y = 5678, rand_speed = 7\<rparr>"
  let ?GC = "((initial 0 0 (\<lambda>i. (600, 350, 0)))
          \<lparr>enemies := replicate 10 (spawn 600 350 0), timeSinceLastSpawn := 7 / 2,
           clock := 3500000\<rparr>)"
  let ?GF = "((initial 0 0 (\<lambda>i. (600, 350, 0)))\<lparr>timeSinceLastSpawn := 7 / 2, clock := 3500000\<rparr>)"
  have fl: "is_float (7 / 2)"
    using rnd_dyadic [of 7 24 1] by (simp add: is_float_def)
  have c: "length (enemies (before_spawn ?F ?GC)) = 10"
    by (subst before_spawn_no_bullets) (simp_all add: initial_def)
  have f: "length (enemies (before_spawn ?F ?GF)) = 5"
    by (subst before_spawn_no_bullets) (simp_all add: initial_def)
  have hc: "is_float (timeSinceLastSpawn ?GC) \<and> 3 < timeSinceLastSpawn ?GC
      \<and> clock ?GC \<le> clock_now ?F"
    using fl by simp
  have hf: "is_float (timeSinceLastSpawn ?GF) \<and> 3 < timeSinceLastSpawn ?GF
      \<and> clock ?GF \<le> clock_now ?F"
    using fl by simp
  note TC = spawn_policy [of ?F ?GC 1234 5678 7 "[]" 0 0 "\<lambda>i. (0, 0, 0)"]
  note TF = spawn_policy [of ?F ?GF 1234 5678 7 "[]" 0 0 "\<lambda>i. (0, 0, 0)"]
  from TC [THEN conjunct2, THEN conjunct2, THEN conjunct2, THEN conjunct2, THEN conjunct1] hc
  have c3: "3 < timeSinceLastSpawn (before_spawn ?F ?GC)" by blast
  from TC [THEN conjunct2, THEN conjunct2, THEN conjunct1] c
  have c4: "enemies (simulate ?F ?GC) = enemies (before_spawn ?F ?GC)
      \<and> timeSinceLastSpawn (simulate ?F ?GC) = timeSinceLastSpawn (before_spawn ?F ?GC)"
    by simp
  from TF [THEN conjunct2, THEN conjunct2, THEN conjunct2, THEN conjunct2, THEN conjunct1] hf
  have f3: "3 < timeSinceLastSpawn (before_spawn ?F ?GF)" by blast
  from TF [THEN conjunct1] f3 f
  have f4: "enemies (simulate ?F ?GF) = enemies (before_spawn ?F ?GF) @ [spawn 1234 5678 7]
      \<and> timeSinceLastSpawn (simulate ?F ?GF) = 0"
    by simp
  have p: "position (spawn 1234 5678 7) = \<lparr>vx = 34, vy = 78\<rparr>"
    by (simp add: spawn_position)
  show ?thesis using fl c c3 c4 f f3 f4 p by simp
qed

section \<open>Bullets that leave the window\<close>

text \<open>
  Claim C5. The bullet loop moves every bullet by its velocity and keeps, in order, exactly
  the moved bullets whose position is not strictly outside the window: a moved bullet stays
  if and only if \<open>0 \<le> x \<le> 1200\<close> and \<open>0 \<le> y \<le> 700\<close>, so a position on the boundary stays.
  A bullet outside is erased in the very frame in which its move took it outside: at the end
  of every frame no bullet is outside the window (the enemy loop, which comes later in the
  frame, only erases bullets).
\<close>

theorem bullets_leave_at_the_window:
  "update_bullets bs
     = filter (\<lambda>b. 0 \<le> vx (shape_position b) \<and> vx (shape_position b) \<le> 1200
                   \<and> 0 \<le> vy (shape_position b) \<and> vy (shape_position b) \<le> 700)
         (map Bullet_move bs)
   \<and> (\<forall>b\<in>set (bullets (loop_body f g)).
         0 \<le> vx (shape_position b) \<and> vx (shape_position b) \<le> 1200
         \<and> 0 \<le> vy (shape_position b) \<and> vy (shape_position b) \<le> 700)"
proof -
  have eq: "(\<lambda>b. \<not> out_of_window (shape_position b))
      = (\<lambda>b. 0 \<le> vx (shape_position b) \<and> vx (shape_position b) \<le> 1200
                   \<and> 0 \<le> vy (shape_position b) \<and> vy (shape_position b) \<le> 700)"
    by (auto simp: out_of_window_iff)
  have 1: "update_bullets bs
     = filter (\<lambda>b. 0 \<le> vx (shape_position b) \<and> vx (shape_position b) \<le> 1200
                   \<and> 0 \<le> vy (shape_position b) \<and> vy (shape_position b) \<le> 700)
         (map Bullet_move bs)" for bs
    by (simp only: update_bullets_filter eq)
  have "set (bullets (loop_body f g))
      \<subseteq> set (update_bullets (bullets (poll_events (events f) g)))"
    using simulate_bullets [of f "poll_events (events f) g"]
    by (simp add: loop_body_def game_over_frame)
  then show ?thesis
    unfolding 1 by (intro conjI ballI) auto
qed

theorem bullets_leave_at_the_window_witness:
  "update_bullets
     [\<lparr>shape_position = \<lparr>vx = 1195, vy = 350\<rparr>, shape_radius = 5,
       bullet_velocity = \<lparr>vx = 7, vy = 0\<rparr>, bullet_speed = 7\<rparr>,
      \<lparr>shape_position = \<lparr>vx = 1193, vy = 350\<rparr>, shape_radius = 5,
       bullet_velocity = \<lparr>vx = 7, vy = 0\<rparr>, bullet_speed = 7\<rparr>]
     = [\<lparr>shape_position = \<lparr>vx = 1200, vy = 350\<rparr>, shape_radius = 5,
         bullet_velocity = \<lparr>vx = 7, vy = 0\<rparr>, bullet_speed = 7\<rparr>]
   \<and> \<lparr>shape_position = \<lparr>vx = 1200, vy = 350\<rparr>, shape_radius = 5,
        bullet_velocity = \<lparr>vx = 7, vy = 0\<rparr>, bullet_speed = 7\<rparr>
      \<in> set (bullets (loop_body
           \<lparr>events = [], clock_now = 15625, key_W = False, key_S = False, key_A = False,
            key_D = False, rand_x = 0, rand_y = 0, rand_speed = 0\<rparr>
           ((initial 0 0 (\<lambda>i. (0, 0, 0)))
              \<lparr>enemies := [],
               bullets :=
                 [\<lparr>shape_position = \<lparr>vx = 1195, vy = 350\<rparr>, shape_radius = 5,
                   bullet_velocity = \<lparr>vx = 7, vy = 0\<rparr>, bullet_speed = 7\<rparr>,
                  \<lparr>shape_position = \<lparr>vx = 1193, vy = 350\<rparr>, shape_radius = 5,
                   bullet_velocity = \<lparr>vx = 7, vy = 0\<rparr>, bullet_speed = 7\<rparr>]\<rparr>)))
   \<and> (0::rat) \<le> 1200 \<and> (1200::rat) \<le> 1200 \<and> (0::rat) \<le> 350 \<and> (350::rat) \<le> 700"
proof -
  have u: "update_bullets
     [\<lparr>shape_position = \<lparr>vx = 1195, vy = 350\<rparr>, shape_radius = 5,
       bullet_velocity = \<lparr>vx = 7, vy = 0\<rparr>, bullet_speed = 7\<rparr>,
      \<lparr>shape_position = \<lparr>vx = 1193, vy = 350\<rparr>, shape_radius = 5,
       bullet_velocity = \<lparr>vx = 7, vy = 0\<rparr>, bullet_speed = 7\<rparr>]
     = [\<lparr>shape_position = \<lparr>vx = 1200, vy = 350\<rparr>, shape_radius = 5,
         bullet_velocity = \<lparr>vx = 7, vy = 0\<rparr>, bullet_speed = 7\<rparr>]"
    by (simp add: Let_def Bullet_move_def vec_add_def out_of_window_iff float_eval)
  have b: "bullets (loop_body
           \<lparr>events = [], clock_now = 15625, key_W = False, key_S = False, key_A = False,
            key_D = False, rand_x = 0, rand_y = 0, rand_speed = 0\<rparr>
           ((initial 0 0 (\<lambda>i. (0, 0, 0)))\<lparr>enemies := [], bullets := bs\<rparr>))
         = update_bullets bs" for bs
    by (simp add: loop_body_def game_over_frame simulate_def before_spawn_def Let_def spawn_enemy_frame
        update_zone_frame update_enemies_def move_player_def advance_clock_def)
  show ?thesis
    using bullets_leave_at_the_window
      [of "[]"
          "\<lparr>events = [], clock_now = 15625, key_W = False, key_S = False, key_A = False,
            key_D = False, rand_x = 0, rand_y = 0, rand_speed = 0\<rparr>"
          "(initial 0 0 (\<lambda>i. (0, 0, 0)))
              \<lparr>enemies := [],
               bullets :=
                 [\<lparr>shape_position = \<lparr>vx = 1195, vy = 350\<rparr>, shape_radius = 5,
                   bullet_velocity = \<lparr>vx = 7, vy = 0\<rparr>, bullet_speed = 7\<rparr>,
                  \<lparr>shape_position = \<lparr>vx = 1193, vy = 350\<rparr>, shape_radius = 5,
                   bullet_velocity = \<lparr>vx = 7, vy = 0\<rparr>, bullet_speed = 7\<rparr>]\<rparr>",
       THEN conjunct2]
    unfolding b u by simp
qed

section \<open>Zero-length directions\<close>

text \<open>
  Claim C6. A direction of length zero divides nothing by zero: an enemy that stands on the
  player's position keeps its velocity (\<^verbatim>\<open>Enemy::update\<close> changes nothing at all), a
  bullet constructed with the zero direction has the zero velocity, and so has the bullet
  fired when the mouse position, as a float, is the player's position. In
  \<open>Enemy_update\<close> and \<open>Bullet_ctor\<close> the division stands under the test \<open>length > 0\<close>.
\<close>

theorem zero_length_direction:
  "(position e = playerPos \<longrightarrow>
      velocity (Enemy_update playerPos e) = velocity e \<and> Enemy_update playerPos e = e)
   \<and> bullet_velocity (Bullet_ctor x y 0 0) = \<lparr>vx = 0, vy = 0\<rparr>
   \<and> (i2f (mouse_x ev) = vx (position (player g)) \<and> i2f (mouse_y ev) = vy (position (player g))
        \<longrightarrow> bullet_velocity (last (bullets (fire ev g))) = \<lparr>vx = 0, vy = 0\<rparr>)"
  by (simp add: Enemy_update_same_position Bullet_ctor_zero_direction fire_def Let_def)

theorem zero_length_direction_witness:
  "position (Entity_ctor 3 4 1 50\<lparr>velocity := \<lparr>vx = 1, vy = 0\<rparr>\<rparr>) = \<lparr>vx = 3, vy = 4\<rparr>
   \<and> velocity (Enemy_update \<lparr>vx = 3, vy = 4\<rparr> (Entity_ctor 3 4 1 50\<lparr>velocity := \<lparr>vx = 1, vy = 0\<rparr>\<rparr>))
       = \<lparr>vx = 1, vy = 0\<rparr>
   \<and> i2f 600 = vx (position Player_ctor) \<and> i2f 350 = vy (position Player_ctor)
   \<and> bullet_velocity (last (bullets (fire
         \<lparr>event_type = MouseButtonPressed Mouse_Left, bulletClock_now = 1000000,
          mouse_x = 600, mouse_y = 350\<rparr>
         (initial 0 0 (\<lambda>i. (0, 0, 0))))))
       = \<lparr>vx = 0, vy = 0\<rparr>"
  using zero_length_direction
    [of "Entity_ctor 3 4 1 50\<lparr>velocity := \<lparr>vx = 1, vy = 0\<rparr>\<rparr>" "\<lparr>vx = 3, vy = 4\<rparr>" 0 0
        "\<lparr>event_type = MouseButtonPressed Mouse_Left, bulletClock_now = 1000000,
          mouse_x = 600, mouse_y = 350\<rparr>"
        "initial 0 0 (\<lambda>i. (0, 0, 0))"]
  by (simp add: Entity_ctor_def Player_ctor_def initial_def WINDOW_WIDTH_def WINDOW_HEIGHT_def)

section \<open>The end of the session\<close>

text \<open>
  Claim C7. The main loop's body ends with the test of the player's health. When the player
  is dead after the simulation of a frame, the frame adds to what the program has done so
  far exactly: the score file \<^verbatim>\<open>game_score.txt\<close> written (the file is truncated when it
  is opened) with the two lines \<^verbatim>\<open>Final Score: \<close>score and \<^verbatim>\<open>Kills: \<close>kill count, no newline after
  the second, holding the values of that moment; the end screen; the pause of 3 seconds. The
  window is then closed, and the main loop runs no further frame, whatever input follows.
  When the player is alive after the simulation, the frame writes nothing. Over any run
  from the initial state, what the program has done is a number of shot sounds, followed
  exactly when the player is dead by one score file, one end screen and one pause: the file
  is written once, at the first frame that ends with the player dead, and never otherwise.
\<close>

theorem game_over_exactly_once:
  "(window_isOpen g \<and> \<not> Entity_isAlive (player (simulate f (poll_events (events f) g))) \<longrightarrow>
      effects (loop_body f g)
        = effects (poll_events (events f) g)
          @ [WriteFile ''game_score.txt''
               (''Final Score: '' @ to_string (score (loop_body f g)) @ [CHR 0x0A]
                  @ ''Kills: '' @ to_string (killCount (loop_body f g))),
             GameOverScreen (game_over_text (loop_body f g)), Sleep 3]
      \<and> \<not> window_isOpen (loop_body f g)
      \<and> main_loop (f # fs) g = loop_body f g)
   \<and> (Entity_isAlive (player (simulate f (poll_events (events f) g))) \<longrightarrow>
      effects (loop_body f g) = effects (poll_events (events f) g)
      \<and> window_isOpen (loop_body f g) = window_isOpen (poll_events (events f) g))
   \<and> (\<exists>n. effects (main_loop fs (initial t_clock t_bulletClock rands))
         = replicate n PlayShootSound
           @ (if Entity_isAlive (player (main_loop fs (initial t_clock t_bulletClock rands)))
              then []
              else [WriteFile ''game_score.txt''
                      (score_text (main_loop fs (initial t_clock t_bulletClock rands))),
                    GameOverScreen
                      (game_over_text (main_loop fs (initial t_clock t_bulletClock rands))),
                    Sleep 3]))
   \<and> (Entity_isAlive (player (main_loop fs (initial t_clock t_bulletClock rands)))
        \<or> \<not> window_isOpen (main_loop fs (initial t_clock t_bulletClock rands)))"
proof -
  have run: "run_effects (main_loop fs (initial t_clock t_bulletClock rands))"
    by (rule main_loop_run_effects) (rule initial_run_effects)
  show ?thesis
  proof (intro conjI impI)
    assume a: "window_isOpen g
      \<and> \<not> Entity_isAlive (player (simulate f (poll_events (events f) g)))"
    then have d: "\<not> Entity_isAlive (player (simulate f (poll_events (events f) g)))" by simp
    show "effects (loop_body f g)
        = effects (poll_events (events f) g)
          @ [WriteFile ''game_score.txt''
               (''Final Score: '' @ to_string (score (loop_body f g)) @ [CHR 0x0A]
                  @ ''Kills: '' @ to_string (killCount (loop_body f g))),
             GameOverScreen (game_over_text (loop_body f g)), Sleep 3]"
      using loop_body_dead(1) [OF d] by (simp add: score_text_def)
    show "\<not> window_isOpen (loop_body f g)" using loop_body_dead(2) [OF d] .
    then show "main_loop (f # fs) g = loop_body f g" using a by (simp add: main_loop_closed)
  next
    assume a: "Entity_isAlive (player (simulate f (poll_events (events f) g)))"
    show "effects (loop_body f g) = effects (poll_events (events f) g)"
      using loop_body_alive(1) [OF a] .
    show "window_isOpen (loop_body f g) = window_isOpen (poll_events (events f) g)"
      using loop_body_alive(2) [OF a] .
  next
    show "\<exists>n. effects (main_loop fs (initial t_clock t_bulletClock rands))
         = replicate n PlayShootSound
           @ (if Entity_isAlive (player (main_loop fs (initial t_clock t_bulletClock rands)))
              then []
              else [WriteFile ''game_score.txt''
                      (score_text (main_loop fs (initial t_clock t_bulletClock rands))),
                    GameOverScreen
                      (game_over_text (main_loop fs (initial t_clock t_bulletClock rands))),
                    Sleep 3])"
      using run unfolding run_effects_def by blast
    show "Entity_isAlive (player (main_loop fs (initial t_clock t_bulletClock rands)))
        \<or> \<not> window_isOpen (main_loop fs (initial t_clock t_bulletClock rands))"
      using run unfolding run_effects_def by blast
  qed
qed

theorem game_over_exactly_once_witness:
  "window_isOpen ((initial 0 0 (\<lambda>i. (0, 0, 0)))
          \<lparr>player := Player_ctor\<lparr>health := 1\<rparr>, enemies := [spawn 600 350 0],
           score := 30, killCount := 3\<rparr>)
   \<and> \<not> Entity_isAlive (player (simulate
        \<lparr>events = [], clock_now = 15625, key_W = False, key_S = False, key_A = False,
          key_D = False, rand_x = 0, rand_y = 0, rand_speed = 0\<rparr>
        (poll_events []
        ((initial 0 0 (\<lambda>i. (0, 0, 0)))
          \<lparr>player := Player_ctor\<lparr>health := 1\<rparr>, enemies := [spawn 600 350 0],
           score := 30, killCount := 3\<rparr>))))
   \<and> effects (loop_body
        \<lparr>events = [], clock_now = 15625, key_W = False, key_S = False, key_A = False,
          key_D = False, rand_x = 0, rand_y = 0, rand_speed = 0\<rparr>
        ((initial 0 0 (\<lambda>i. (0, 0, 0)))
          \<lparr>player := Player_ctor\<lparr>health := 1\<rparr>, enemies := [spawn 600 350 0],
           score := 30, killCount := 3\<rparr>))
       = [WriteFile ''game_score.txt'' (''Final Score: 30'' @ [CHR 0x0A] @ ''Kills: 3''),
          GameOverScreen (''The Last Helldiver Fell'' @ [CHR 0x0A] @ ''Final Score: 30 | Kills: 3''),
          Sleep 3]
   \<and> \<not> window_isOpen (loop_body
        \<lparr>events = [], clock_now = 15625, key_W = False, key_S = False, key_A = False,
          key_D = False, rand_x = 0, rand_y = 0, rand_speed = 0\<rparr>
        ((initial 0 0 (\<lambda>i. (0, 0, 0)))
          \<lparr>player := Player_ctor\<lparr>health := 1\<rparr>, enemies := [spawn 600 350 0],
           score := 30, killCount := 3\<rparr>))
   \<and> main_loop
        [\<lparr>events = [], clock_now = 15625, key_W = False, key_S = False, key_A = False,
          key_D = False, rand_x = 0, rand_y = 0, rand_speed = 0\<rparr>,
         \<lparr>events = [], clock_now = 15625, key_W = False, key_S = False, key_A = False,
          key_D = False, rand_x = 0, rand_y = 0, rand_speed = 0\<rparr>]
        ((initial 0 0 (\<lambda>i. (0, 0, 0)))
          \<lparr>player := Player_ctor\<lparr>health := 1\<rparr>, enemies := [spawn 600 350 0],
           score := 30, killCount := 3\<rparr>)
       = loop_body
        \<lparr>events = [], clock_now = 15625, key_W = False, key_S = False, key_A = False,
          key_D = False, rand_x = 0, rand_y = 0, rand_speed = 0\<rparr>
        ((initial 0 0 (\<lambda>i. (0, 0, 0)))
          \<lparr>player := Player_ctor\<lparr>health := 1\<rparr>, enemies := [spawn 600 350 0],
           score := 30, killCount := 3\<rparr>)
   \<and> Entity_isAlive (player (simulate
        \<lparr>events = [], clock_now = 15625, key_W = False, key_S = False, key_A = False,
          key_D = False, rand_x = 0, rand_y = 0, rand_speed = 0\<rparr>
        (poll_events []
        ((initial 0 0 (\<lambda>i. (0, 0, 0)))\<lparr>enemies := []\<rparr>))))
   \<and> effects (loop_body
        \<lparr>events = [], clock_now = 15625, key_W = False, key_S = False, key_A = False,
          key_D = False, rand_x = 0, rand_y = 0, rand_speed = 0\<rparr>
        ((initial 0 0 (\<lambda>i. (0, 0, 0)))\<lparr>enemies := []\<rparr>)) = []"
proof -
  let ?F = "\<lparr>events = [], clock_now = 15625, key_W = False, key_S = False, key_A = False,
          key_D = False, rand_x = 0, rand_y = 0, rand_speed = 0\<rparr>"
  let ?G0 = "((initial 0 0 (\<lambda>i. (0, 0, 0)))
          \<lparr>player := Player_ctor\<lparr>health := 1\<rparr>, enemies := [spawn 600 350 0],
           score := 30, killCount := 3\<rparr>)"
  let ?G1 = "((initial 0 0 (\<lambda>i. (0, 0, 0)))\<lparr>enemies := []\<rparr>)"
  have "health (player (simulate ?F ?G0)) \<le> 0"
    using simulate_player_health_after_enemies [of ?F ?G0]
    by (simp add: move_player_def advance_clock_def Let_def initial_def Player_handleInput_no_keys
        Player_ctor_eval spawn_on_player Entity_move_def vec_add_def fadd_def rnd_numeral
        update_enemies_def enemy_step_def Enemy_update_same_position touches_same_position
        Entity_takeDamage_def)
  then have dead: "\<not> Entity_isAlive (player (simulate ?F (poll_events (events ?F) ?G0)))"
    by (simp add: Entity_isAlive_def)
  have "0 < health (player (simulate ?F ?G1))"
    using simulate_player_health_lower [of ?G1 ?F] by (simp add: initial_def Player_ctor_eval)
  then have alive: "Entity_isAlive (player (simulate ?F (poll_events (events ?F) ?G1)))"
    by (simp add: Entity_isAlive_def)
  have s: "score (loop_body ?F ?G0) = 30" "killCount (loop_body ?F ?G0) = 3"
    by (simp_all add: loop_body_def game_over_frame simulate_score_after_enemies
        move_player_def advance_clock_def Let_def initial_def Player_handleInput_no_keys
        Player_ctor_eval spawn_on_player Entity_move_def vec_add_def fadd_def rnd_numeral
        update_enemies_def enemy_step_def Enemy_update_same_position touches_same_position
        Entity_takeDamage_def)
  have o: "window_isOpen ?G0" "effects ?G0 = []" "effects ?G1 = []" by (simp_all add: initial_def)
  have t: "to_string 30 = ''30''" "to_string 3 = ''3''"
    by (simp_all add: to_string_def digits.simps)
  from game_over_exactly_once [of ?G0 ?F "[?F]", THEN conjunct1] dead o
  have 1: "effects (loop_body ?F ?G0)
       = [WriteFile ''game_score.txt'' (''Final Score: 30'' @ [CHR 0x0A] @ ''Kills: 3''),
          GameOverScreen (''The Last Helldiver Fell'' @ [CHR 0x0A] @ ''Final Score: 30 | Kills: 3''),
          Sleep 3]
     \<and> \<not> window_isOpen (loop_body ?F ?G0)
     \<and> main_loop [?F, ?F] ?G0 = loop_body ?F ?G0"
    by (simp add: s t game_over_text_def)
  from game_over_exactly_once [of ?G1 ?F "[]", THEN conjunct2, THEN conjunct1] alive o
  have 2: "effects (loop_body ?F ?G1) = []" by simp
  show ?thesis using 1 2 dead alive o by simp
qed

section \<open>Health never grows\<close>

text \<open>
  Claim C8. \<^verbatim>\<open>takeDamage\<close> subtracts its argument, and the game loop only calls it with 25
  (a bullet on an enemy) and 1 (an enemy or the zone on the player). Across one frame, and
  across any run of the main loop, the player's health does not grow. Across one frame the
  enemies that are left are, in order, some of the enemies before (\<open>xs\<close>, a subsequence),
  each with the same speed and with a health that did not grow (\<open>ys\<close>), followed by at most
  one newly created enemy. An entity is alive exactly when its health is above 0.
\<close>

theorem health_never_grows:
  "health (player (loop_body f g)) \<le> health (player g)
   \<and> health (player (main_loop fs g)) \<le> health (player g)
   \<and> (\<exists>xs ys new. subseq xs (enemies g)
         \<and> list_all2 (\<lambda>e e'. health e' \<le> health e \<and> speed e' = speed e) xs ys
         \<and> enemies (loop_body f g) = ys @ new
         \<and> (new = [] \<or> new = [spawn (rand_x f) (rand_y f) (rand_speed f)]))
   \<and> health (Entity_takeDamage amount e) = health e - amount
   \<and> Entity_isAlive e = (0 < health e)"
  using loop_body_player_health [of f g] main_loop_player_health [of fs g]
    simulate_enemies [of "poll_events (events f) g" f]
  by (simp add: loop_body_def game_over_frame poll_events_frame Entity_takeDamage_def
      Entity_isAlive_def)

section \<open>The score is ten times the kill count\<close>

text \<open>
  Claim C9. Score and kill count both start at 0. In one pass of the enemy loop either the
  enemy is erased and the score grows by 10 and the kill count by 1, or the enemy is kept
  and neither changes (by C1 the enemy is erased exactly when the first bullet in range
  brings its health to 0 or below). Over a whole frame the score grows by \<open>10 * k\<close> and the
  kill count by \<open>k\<close> for some number \<open>k\<close>; no other part of the frame changes them. So
  after every run of the main loop from the initial state the score is ten times the kill
  count. The integers of the model are unbounded: a C++ \<^verbatim>\<open>int\<close> holds the score up to
  214748364 kills.
\<close>

theorem score_is_ten_times_kills:
  "score (initial t_clock t_bulletClock rands) = 0
   \<and> killCount (initial t_clock t_bulletClock rands) = 0
   \<and> score (main_loop fs (initial t_clock t_bulletClock rands))
       = 10 * killCount (main_loop fs (initial t_clock t_bulletClock rands))
   \<and> (\<exists>k. score (loop_body f g) = score g + 10 * int k
          \<and> killCount (loop_body f g) = killCount g + int k)
   \<and> ((enemies (enemy_step e g) = enemies g \<and> score (enemy_step e g) = score g + 10
          \<and> killCount (enemy_step e g) = killCount g + 1)
       \<or> (length (enemies (enemy_step e g)) = length (enemies g) + 1
          \<and> score (enemy_step e g) = score g \<and> killCount (enemy_step e g) = killCount g))"
proof -
  have "score (initial t_clock t_bulletClock rands)
          = 10 * killCount (initial t_clock t_bulletClock rands)"
    by (simp add: initial_def)
  then show ?thesis
    using main_loop_score_invariant [of "initial t_clock t_bulletClock rands" fs]
      loop_body_score [of f g] enemy_step_score [of e g]
    by (simp add: initial_def)
qed

section \<open>The player is free to leave the window\<close>

text \<open>
  Claim C10. The player's position is never clamped or tested against the window: a frame
  sets it to the sum of the old position and the velocity that \<^verbatim>\<open>handleInput\<close> derives
  from the keys, whatever the result. The zone phase takes exactly 1 from the player's health
  when the position is not inside the shrunk zone, and nothing otherwise. With \<^verbatim>\<open>W\<close> held
  from the start, frames 1 / 64 of a second apart and the five first enemies at the bottom
  edge, the player is at \<open>(600, 350 - 3 n)\<close> after \<open>n\<close> frames, for every \<open>n\<close> up to 120:
  above the top edge of the window from frame 117 on. The window stays open, no game-over
  effect is produced, nothing is scored, the five enemies stay, and the health is 100 for the
  first 112 frames and drops by one in each frame after that, which is the damage of the zone.
\<close>

theorem player_can_leave_the_window:
  assumes "n \<le> 120"
  shows "position (player (move_player f g))
       = vec_add (position (player g))
           (velocity (Player_handleInput (key_W f) (key_S f) (key_A f) (key_D f) (player g)))
     \<and> health (player (update_zone g))
       = (if SafeZone_isInside (SafeZone_update (safeZone g)) (position (player g))
          then health (player g) else health (player g) - 1)
     \<and> (let G = main_loop (map walk_frame [0..<n]) (initial 0 0 (\<lambda>i. (600, 699, 0))) in
          position (player G) = \<lparr>vx = 600, vy = 350 - 3 * of_nat n\<rparr>
          \<and> out_of_window (position (player G)) = (116 < n)
          \<and> health (player G) = 100 - int (n - 112)
          \<and> Entity_isAlive (player G) \<and> window_isOpen G \<and> effects G = []
          \<and> length (enemies G) = 5 \<and> score G = 0)"
proof -
  have r: "main_loop (map walk_frame [0..<n]) (initial 0 0 (\<lambda>i. (600, 699, 0))) = walk_state n"
    unfolding walk_initial using assms by (rule walk_run)
  have p: "position (player (walk_state n)) = \<lparr>vx = 600, vy = 350 - 3 * of_nat n\<rparr>"
    by (simp add: walk_state_def)
  have "out_of_window (position (player (walk_state n))) = (116 < n)"
    unfolding p by (rule walk_out_of_window)
  moreover have "health (player (walk_state n)) = 100 - int (n - 112)"
    "window_isOpen (walk_state n)" "effects (walk_state n) = []"
    "length (enemies (walk_state n)) = 5" "score (walk_state n) = 0"
    by (simp_all add: walk_state_def)
  moreover have "Entity_isAlive (player (walk_state n))"
    using assms by (simp add: walk_state_def Entity_isAlive_def)
  ultimately show ?thesis
    unfolding Let_def r by (simp only: p move_player_position update_zone_damage simp_thms)
qed

theorem player_can_leave_the_window_witness:
  "(120 :: nat) \<le> 120
   \<and> (let G = main_loop (map walk_frame [0..<120]) (initial 0 0 (\<lambda>i. (600, 699, 0))) in
        position (player G) = \<lparr>vx = 600, vy = - 10\<rparr> \<and> out_of_window (position (player G))
        \<and> health (player G) = 92 \<and> Entity_isAlive (player G) \<and> window_isOpen G
        \<and> effects G = [])"
proof -
  have "(120 :: nat) \<le> 120" by simp
  from player_can_leave_the_window [OF this, THEN conjunct2, THEN conjunct2]
  show ?thesis unfolding Let_def by (simp add: out_of_window_def)
qed

end
